theory Spec2Isabelle
  imports Complex_Main "HOL-Library.Sublist"
begin

section \<open>Data model\<close>

text \<open>
  The geometry core of the games lives in \<^verbatim>\<open>src/FeasibleZone.tsx\<close> (systems of
  inequalities) and \<^verbatim>\<open>src/HalfPlaneHero.tsx\<close> (one inequality, canonical lines).
  JavaScript numbers are modelled in two ways. The functions of the two source files are
  first written over exact reals: every arithmetic operation of the source is the
  corresponding operation on \<^typ>\<open>real\<close>. This is what the code computes wherever no
  operation rounds, as at the integer inputs of the levels. Where the rounding of the
  double arithmetic decides a property (the area of a rotated polygon, the offset of a
  line through two swapped points), the function is written a second time with every
  arithmetic result rounded to binary64; these carry the suffix \<open>_f64\<close>. Negative
  zero, infinities and NaN do not occur in either model. The record fields carry a prefix
  (\<open>pt_x\<close> for the source's \<^verbatim>\<open>x\<close> of a \<^verbatim>\<open>Pt\<close>, \<open>k_a\<close> for \<^verbatim>\<open>a\<close> of a
  \<^verbatim>\<open>Constraint\<close>, \<open>i_a\<close> for \<^verbatim>\<open>a\<close> of an \<^verbatim>\<open>Inequality\<close>, \<open>l_a\<close> for \<^verbatim>\<open>a\<close>
  of a line triple) because a field is a constant of the theory.
\<close>

datatype Comparator = Le | Lt | Ge | Gt

record Pt =
  pt_x :: real
  pt_y :: real

record Constraint =
  k_id :: string
  k_a :: real
  k_b :: real
  k_c :: real
  k_comp :: Comparator
  k_label :: string
  k_color :: string

record Domain2D =
  xmin :: real
  xmax :: real
  ymin :: real
  ymax :: real

text \<open>\<^verbatim>\<open>HalfPlaneHero.tsx\<close> has its own domain type (with a grid step) and inequality type.\<close>

record HDomain2D = Domain2D +
  dstep :: real

record Inequality =
  i_a :: real
  i_b :: real
  i_c :: real
  i_comp :: Comparator

record Line =
  l_a :: real
  l_b :: real
  l_c :: real

datatype Status = Binding | Slack | Violated

section \<open>Math utilities of FeasibleZone.tsx\<close>

text \<open>\<^verbatim>\<open>Math.hypot(a, b)\<close>.\<close>

definition hypot :: "real \<Rightarrow> real \<Rightarrow> real" where
  "hypot a b = sqrt (a\<^sup>2 + b\<^sup>2)"

definition insideHalfPlane :: "Pt \<Rightarrow> Constraint \<Rightarrow> bool" where
  "insideHalfPlane p k =
     (let s = k_a k * pt_x p + k_b k * pt_y p in
      case k_comp k of
        Le \<Rightarrow> s \<le> k_c k + 1 / 10 ^ 9
      | Lt \<Rightarrow> s < k_c k - 1 / 10 ^ 9
      | Ge \<Rightarrow> s \<ge> k_c k - 1 / 10 ^ 9
      | Gt \<Rightarrow> s > k_c k + 1 / 10 ^ 9)"

definition intersectLineSegWithLine :: "Pt \<Rightarrow> Pt \<Rightarrow> Constraint \<Rightarrow> Pt" where
  "intersectLineSegWithLine p q k =
     (let dx = pt_x q - pt_x p; dy = pt_y q - pt_y p;
          den = k_a k * dx + k_b k * dy
      in if \<bar>den\<bar> < 1 / 10 ^ 12 then q
         else let t = (k_c k - (k_a k * pt_x p + k_b k * pt_y p)) / den
              in \<lparr>pt_x = pt_x p + t * dx, pt_y = pt_y p + t * dy\<rparr>)"

text \<open>
  The edge loop of \<^verbatim>\<open>clipPolyByHalfPlane\<close>. Its state is the previous vertex \<open>S\<close> and
  the output list; \<open>S_in\<close> is the \<^verbatim>\<open>const S_in\<close> that the source computes once,
  before the loop, from the last vertex of the polygon, and never assigns again.
\<close>

fun clip_loop :: "Constraint \<Rightarrow> bool \<Rightarrow> Pt \<Rightarrow> Pt list \<Rightarrow> Pt list \<Rightarrow> Pt list" where
  "clip_loop k S_in S [] out = out"
| "clip_loop k S_in S (E # rest) out =
     (let E_in = insideHalfPlane E k;
          out' = (if E_in then
                    (if \<not> S_in then out @ [intersectLineSegWithLine S E k] else out) @ [E]
                  else if S_in then out @ [intersectLineSegWithLine S E k]
                  else out)
      in clip_loop k S_in E rest out')"

text \<open>
  The cleanup loop: \<^verbatim>\<open>cleaned[cleaned.length - 1]\<close> is \<^verbatim>\<open>undefined\<close> on the empty
  list, which \<^verbatim>\<open>!last\<close> accepts.
\<close>

fun cleanup_loop :: "Pt list \<Rightarrow> Pt list \<Rightarrow> Pt list" where
  "cleanup_loop [] cleaned = cleaned"
| "cleanup_loop (p # ps) cleaned =
     (if cleaned = [] \<or>
         hypot (pt_x p - pt_x (last cleaned)) (pt_y p - pt_y (last cleaned)) > 1 / 10 ^ 6
      then cleanup_loop ps (cleaned @ [p])
      else cleanup_loop ps cleaned)"

definition clipPolyByHalfPlane :: "Pt list \<Rightarrow> Constraint \<Rightarrow> Pt list" where
  "clipPolyByHalfPlane poly k =
     (if length poly = 0 then []
      else let S = last poly;
               S_in = insideHalfPlane S k;
               out = clip_loop k S_in S poly []
           in cleanup_loop out [])"

definition initRect :: "Domain2D \<Rightarrow> Pt list" where
  "initRect dmn =
     [\<lparr>pt_x = xmin dmn, pt_y = ymin dmn\<rparr>,
      \<lparr>pt_x = xmax dmn, pt_y = ymin dmn\<rparr>,
      \<lparr>pt_x = xmax dmn, pt_y = ymax dmn\<rparr>,
      \<lparr>pt_x = xmin dmn, pt_y = ymax dmn\<rparr>]"

definition feasiblePolygon :: "Domain2D \<Rightarrow> Constraint list \<Rightarrow> Pt list" where
  "feasiblePolygon dmn constraints = foldl clipPolyByHalfPlane (initRect dmn) constraints"

text \<open>The summand of the shoelace loop for index \<open>i\<close>.\<close>

definition shoelace_term :: "Pt list \<Rightarrow> nat \<Rightarrow> real" where
  "shoelace_term poly i =
     (let a = poly ! i; b = poly ! ((i + 1) mod length poly)
      in pt_x a * pt_y b - pt_y a * pt_x b)"

definition polygonArea :: "Pt list \<Rightarrow> real" where
  "polygonArea poly =
     (if length poly < 3 then 0
      else let s = foldl (\<lambda>s i. s + shoelace_term poly i) 0 [0..<length poly]
           in \<bar>s\<bar> / 2)"

text \<open>
  The two nested \<^verbatim>\<open>for\<close> loops of \<^verbatim>\<open>systemsEquivalent\<close>, inner loop first. The
  loop variable advances by \<^verbatim>\<open>step = 0.5\<close>; \<^verbatim>\<open>return false\<close> leaves both loops.
\<close>

function sysEq_y :: "real \<Rightarrow> real \<Rightarrow> real \<Rightarrow> Constraint list \<Rightarrow> Constraint list \<Rightarrow> bool" where
  "sysEq_y cx cy ymx A B =
     (if cy \<le> ymx then
        (let p = \<lparr>pt_x = cx, pt_y = cy\<rparr>;
             inA = list_all (\<lambda>k. insideHalfPlane p k) A;
             inB = list_all (\<lambda>k. insideHalfPlane p k) B
         in if inA \<noteq> inB then False else sysEq_y cx (cy + 1 / 2) ymx A B)
      else True)"
  by pat_completeness auto
termination
proof (relation "measure (\<lambda>(cx, cy, ymx, A, B). nat (\<lfloor>(ymx - cy) * 2\<rfloor> + 1))", goal_cases)
  case 1
  show ?case by simp
next
  case (2 cx cy ymx A B p inA inB)
  define f where "f = \<lfloor>(ymx - cy) * 2\<rfloor>"
  have "(ymx - (cy + 1 / 2)) * 2 = (ymx - cy) * 2 - 1"
    by (simp add: algebra_simps)
  then have "\<lfloor>(ymx - (cy + 1 / 2)) * 2\<rfloor> = f - 1"
    unfolding f_def by (simp only: floor_diff_one)
  moreover have "0 \<le> f"
    unfolding f_def using 2 by simp
  ultimately show ?case
    unfolding f_def [symmetric] in_measure prod.case by linarith
qed

function sysEq_x :: "real \<Rightarrow> Domain2D \<Rightarrow> Constraint list \<Rightarrow> Constraint list \<Rightarrow> bool" where
  "sysEq_x cx dmn A B =
     (if cx \<le> xmax dmn then
        (if sysEq_y cx (ymin dmn) (ymax dmn) A B then sysEq_x (cx + 1 / 2) dmn A B
         else False)
      else True)"
  by pat_completeness auto
termination
proof (relation "measure (\<lambda>(cx, dmn, A, B). nat (\<lfloor>(xmax dmn - cx) * 2\<rfloor> + 1))", goal_cases)
  case 1
  show ?case by simp
next
  case (2 cx dmn A B)
  define f where "f = \<lfloor>(xmax dmn - cx) * 2\<rfloor>"
  have "(xmax dmn - (cx + 1 / 2)) * 2 = (xmax dmn - cx) * 2 - 1"
    by (simp add: algebra_simps)
  then have "\<lfloor>(xmax dmn - (cx + 1 / 2)) * 2\<rfloor> = f - 1"
    unfolding f_def by (simp only: floor_diff_one)
  moreover have "0 \<le> f"
    unfolding f_def using 2 by simp
  ultimately show ?case
    unfolding f_def [symmetric] in_measure prod.case by linarith
qed

text \<open>The loops are unfolded one step at a time, by hand.\<close>

declare sysEq_y.simps [simp del] sysEq_x.simps [simp del]

definition systemsEquivalent :: "Domain2D \<Rightarrow> Constraint list \<Rightarrow> Constraint list \<Rightarrow> bool" where
  "systemsEquivalent dmn A B = sysEq_x (xmin dmn) dmn A B"

definition bindingStatus :: "Pt \<Rightarrow> Constraint \<Rightarrow> Status" where
  "bindingStatus p k =
     (let s = k_a k * pt_x p + k_b k * pt_y p - k_c k;
          tol = 1 / 10 ^ 2;
          inside = insideHalfPlane p k
      in if \<not> inside then Violated
         else if \<bar>s\<bar> \<le> tol then Binding
         else Slack)"

text \<open>The first level of \<^verbatim>\<open>LEVELS\<close>: its domain and its two target constraints.\<close>

definition level1_dom :: Domain2D where
  "level1_dom = \<lparr>xmin = 0, xmax = 12, ymin = 0, ymax = 12\<rparr>"

definition budget :: Constraint where
  "budget = \<lparr>k_id = ''budget'', k_a = 2, k_b = 1, k_c = 12, k_comp = Le,
              k_label = ''Budget <='', k_color = ''amber''\<rparr>"

definition security :: Constraint where
  "security = \<lparr>k_id = ''security'', k_a = 1, k_b = 0, k_c = 2, k_comp = Ge,
                k_label = ''Security >='', k_color = ''emerald''\<rparr>"

section \<open>Math utilities of HalfPlaneHero.tsx\<close>

definition EPS :: real where
  "EPS = 1 / 10 ^ 6"

text \<open>
  \<^verbatim>\<open>Math.hypot(a,b) || 1\<close>: the divisor is \<open>1\<close> when the length is \<open>0\<close>.
\<close>

definition hypot_or_1 :: "real \<Rightarrow> real \<Rightarrow> real" where
  "hypot_or_1 a b = (if hypot a b = 0 then 1 else hypot a b)"

definition lineFromPoints :: "Pt \<Rightarrow> Pt \<Rightarrow> Line" where
  "lineFromPoints p1 p2 =
     (let dx = pt_x p2 - pt_x p1; dy = pt_y p2 - pt_y p1;
          a = dy; b = - dx;
          n = hypot_or_1 a b;
          a = a / n; b = b / n;
          (a, b) = (if \<bar>a\<bar> < EPS then (if b < 0 then (- a, - b) else (a, b))
                    else if a < 0 then (- a, - b) else (a, b));
          c = a * pt_x p1 + b * pt_y p1
      in \<lparr>l_a = a, l_b = b, l_c = c\<rparr>)"

text \<open>The local \<^verbatim>\<open>fix\<close> of \<^verbatim>\<open>sameLine\<close>.\<close>

definition fix_line :: "real \<Rightarrow> real \<Rightarrow> real \<Rightarrow> Line" where
  "fix_line a b c =
     (if \<bar>a\<bar> < EPS then (if b < 0 then \<lparr>l_a = - a, l_b = - b, l_c = - c\<rparr>
                           else \<lparr>l_a = a, l_b = b, l_c = c\<rparr>)
      else (if a < 0 then \<lparr>l_a = - a, l_b = - b, l_c = - c\<rparr>
            else \<lparr>l_a = a, l_b = b, l_c = c\<rparr>))"

definition sameLine :: "Line \<Rightarrow> Line \<Rightarrow> bool" where
  "sameLine u v =
     (let nu = hypot_or_1 (l_a u) (l_b u); nv = hypot_or_1 (l_a v) (l_b v);
          fu = fix_line (l_a u / nu) (l_b u / nu) (l_c u / nu);
          fv = fix_line (l_a v / nv) (l_b v / nv) (l_c v / nv)
      in \<bar>l_a fu - l_a fv\<bar> < 1 / 10 ^ 2 \<and> \<bar>l_b fu - l_b fv\<bar> < 1 / 10 ^ 2
         \<and> \<bar>l_c fu - l_c fv\<bar> < 1 / 10 ^ 2)"

definition insideHalfPlane_H :: "real \<Rightarrow> real \<Rightarrow> Inequality \<Rightarrow> bool" where
  "insideHalfPlane_H px py ineq =
     (let s = i_a ineq * px + i_b ineq * py in
      case i_comp ineq of
        Le \<Rightarrow> s \<le> i_c ineq + 1 / 10 ^ 9
      | Lt \<Rightarrow> s < i_c ineq - 1 / 10 ^ 9
      | Ge \<Rightarrow> s \<ge> i_c ineq - 1 / 10 ^ 9
      | Gt \<Rightarrow> s > i_c ineq + 1 / 10 ^ 9)"

text \<open>The local \<^verbatim>\<open>inter\<close> of \<^verbatim>\<open>clipRectByHalfPlane\<close>.\<close>

definition inter :: "Inequality \<Rightarrow> Pt \<Rightarrow> Pt \<Rightarrow> Pt" where
  "inter ineq p q =
     (let dx = pt_x q - pt_x p; dy = pt_y q - pt_y p;
          den = i_a ineq * dx + i_b ineq * dy
      in if \<bar>den\<bar> < 1 / 10 ^ 9 then q
         else let t = (i_c ineq - (i_a ineq * pt_x p + i_b ineq * pt_y p)) / den
              in \<lparr>pt_x = pt_x p + t * dx, pt_y = pt_y p + t * dy\<rparr>)"

text \<open>
  The edge loop of \<^verbatim>\<open>clipRectByHalfPlane\<close>: here \<^verbatim>\<open>Sin\<close> is computed inside the
  loop body, from the current \<open>S\<close>.
\<close>

fun clipRect_loop :: "Inequality \<Rightarrow> Pt \<Rightarrow> Pt list \<Rightarrow> Pt list \<Rightarrow> Pt list" where
  "clipRect_loop ineq S [] out = out"
| "clipRect_loop ineq S (E # rest) out =
     (let Sin = insideHalfPlane_H (pt_x S) (pt_y S) ineq;
          Ein = insideHalfPlane_H (pt_x E) (pt_y E) ineq;
          out' = (if Ein then (if \<not> Sin then out @ [inter ineq S E] else out) @ [E]
                  else if Sin then out @ [inter ineq S E]
                  else out)
      in clipRect_loop ineq E rest out')"

definition clipRectByHalfPlane :: "'a HDomain2D_scheme \<Rightarrow> Inequality \<Rightarrow> Pt list" where
  "clipRectByHalfPlane dmn ineq =
     (let poly = [\<lparr>pt_x = xmin dmn, pt_y = ymin dmn\<rparr>, \<lparr>pt_x = xmax dmn, pt_y = ymin dmn\<rparr>,
                  \<lparr>pt_x = xmax dmn, pt_y = ymax dmn\<rparr>, \<lparr>pt_x = xmin dmn, pt_y = ymax dmn\<rparr>];
          S = last poly
      in clipRect_loop ineq S poly [])"

section \<open>The specification's notions\<close>

text \<open>
  Exact satisfaction of a comparator: \<open>a\<cdot>x + b\<cdot>y comp c\<close> in exact arithmetic, without
  any tolerance.
\<close>

definition satisfiesExactly :: "Pt \<Rightarrow> Constraint \<Rightarrow> bool" where
  "satisfiesExactly p k =
     (let s = k_a k * pt_x p + k_b k * pt_y p in
      case k_comp k of
        Le \<Rightarrow> s \<le> k_c k
      | Lt \<Rightarrow> s < k_c k
      | Ge \<Rightarrow> s \<ge> k_c k
      | Gt \<Rightarrow> s > k_c k)"

text \<open>
  The single-constraint clip in the specification's words: walk the edges in order; for
  each edge \<open>(S \<rightarrow> E)\<close>, if \<open>E\<close> is inside keep it, emitting the intersection first if
  \<open>S\<close> was outside; if only \<open>S\<close> was inside emit the intersection. Here the status of
  \<open>S\<close> is that of the edge's own start vertex. The merge of near-duplicates follows.
\<close>

fun spec_walk :: "Constraint \<Rightarrow> Pt \<Rightarrow> Pt list \<Rightarrow> Pt list" where
  "spec_walk k S [] = []"
| "spec_walk k S (E # rest) =
     (if insideHalfPlane E k then
        (if insideHalfPlane S k then [E] else [intersectLineSegWithLine S E k, E])
      else if insideHalfPlane S k then [intersectLineSegWithLine S E k]
      else [])
     @ spec_walk k E rest"

definition clipPolySpec :: "Pt list \<Rightarrow> Constraint \<Rightarrow> Pt list" where
  "clipPolySpec poly k =
     (if poly = [] then [] else cleanup_loop (spec_walk k (last poly) poly) [])"

text \<open>
  The shoelace formula over the implicitly closed vertex sequence: the sum of the cross
  products of consecutive vertices along the walk that returns to the first vertex.
\<close>

definition cross :: "Pt \<Rightarrow> Pt \<Rightarrow> real" where
  "cross a b = pt_x a * pt_y b - pt_y a * pt_x b"

fun pair_sum :: "Pt list \<Rightarrow> real" where
  "pair_sum (p # q # rest) = cross p q + pair_sum (q # rest)"
| "pair_sum _ = 0"

definition shoelace_closed :: "Pt list \<Rightarrow> real" where
  "shoelace_closed poly = pair_sum (poly @ take 1 poly)"

text \<open>Two vertices are the same up to the clipper's tolerance \<open>1e-6\<close>.\<close>

definition near :: "Pt \<Rightarrow> Pt \<Rightarrow> bool" where
  "near p q = (hypot (pt_x p - pt_x q) (pt_y p - pt_y q) \<le> 1 / 10 ^ 6)"

section \<open>Binary64 arithmetic\<close>

text \<open>
  A double is a real of the form \<open>m \<cdot> 2\<^sup>e\<close> with \<open>\<bar>m\<bar> < 2\<^sup>5\<^sup>3\<close> and \<open>e \<ge> -1074\<close>. \<open>fl\<close>
  rounds a real to the nearest double, ties to the even mantissa, as IEEE 754 prescribes
  for \<^verbatim>\<open>+\<close>, \<^verbatim>\<open>-\<close>, \<^verbatim>\<open>*\<close> and \<^verbatim>\<open>/\<close>; below \<open>2\<^sup>-\<^sup>1\<^sup>0\<^sup>2\<^sup>2\<close> the spacing stays
  \<open>2\<^sup>-\<^sup>1\<^sup>0\<^sup>7\<^sup>4\<close> (gradual underflow). Overflow to infinity is not modelled: the theorems
  bound the magnitudes so that no result reaches \<open>2\<^sup>1\<^sup>0\<^sup>2\<^sup>4\<close>.
\<close>

definition rne :: "real \<Rightarrow> int" where
  "rne y =
     (let f = \<lfloor>y\<rfloor>; d = y - of_int f
      in if d < 1 / 2 then f
         else if 1 / 2 < d then f + 1
         else if even f then f else f + 1)"

definition fl :: "real \<Rightarrow> real" where
  "fl x =
     (if x = 0 then 0
      else let e = max (\<lfloor>log 2 \<bar>x\<bar>\<rfloor> - 52) (- 1074)
           in of_int (rne (x / 2 powi e)) * 2 powi e)"





text \<open>
  \<open>lineFromPoints\<close> and \<open>sameLine\<close> with every arithmetic result rounded. \<^verbatim>\<open>Math.hypot\<close>
  is a function of the platform, and ECMAScript leaves its rounding to the
  implementation: it is the parameter \<open>hyp\<close>. \<open>hypot_ok\<close> says what the theorems need of
  it: it does not change when both arguments change sign, and it is within a relative
  error of \<open>2\<^sup>-\<^sup>5\<^sup>0\<close> (four units in the last place) of the exact value. \<open>hypot_cr\<close> is
  the correctly rounded one. \<open>EPS_f64\<close> is the double of the literal \<^verbatim>\<open>1e-6\<close>.
\<close>

definition hypot_cr :: "real \<Rightarrow> real \<Rightarrow> real" where
  "hypot_cr a b = fl (sqrt (a\<^sup>2 + b\<^sup>2))"

definition hypot_ok :: "(real \<Rightarrow> real \<Rightarrow> real) \<Rightarrow> bool" where
  "hypot_ok hyp =
     ((\<forall>a b. hyp (- a) (- b) = hyp a b)
      \<and> (\<forall>a b. \<bar>hyp a b - sqrt (a\<^sup>2 + b\<^sup>2)\<bar> \<le> sqrt (a\<^sup>2 + b\<^sup>2) / 2 ^ 50 + 1 / 2 ^ 1075))"

definition EPS_f64 :: real where
  "EPS_f64 = fl (1 / 10 ^ 6)"

definition lineFromPoints_f64 :: "(real \<Rightarrow> real \<Rightarrow> real) \<Rightarrow> Pt \<Rightarrow> Pt \<Rightarrow> Line" where
  "lineFromPoints_f64 hyp p1 p2 =
     (let dx = fl (pt_x p2 - pt_x p1); dy = fl (pt_y p2 - pt_y p1);
          a = dy; b = - dx;
          n = (if hyp a b = 0 then 1 else hyp a b);
          a = fl (a / n); b = fl (b / n);
          (a, b) = (if \<bar>a\<bar> < EPS_f64 then (if b < 0 then (- a, - b) else (a, b))
                    else if a < 0 then (- a, - b) else (a, b));
          c = fl (fl (a * pt_x p1) + fl (b * pt_y p1))
      in \<lparr>l_a = a, l_b = b, l_c = c\<rparr>)"

definition fix_line_f64 :: "real \<Rightarrow> real \<Rightarrow> real \<Rightarrow> Line" where
  "fix_line_f64 a b c =
     (if \<bar>a\<bar> < EPS_f64 then (if b < 0 then \<lparr>l_a = - a, l_b = - b, l_c = - c\<rparr>
                               else \<lparr>l_a = a, l_b = b, l_c = c\<rparr>)
      else (if a < 0 then \<lparr>l_a = - a, l_b = - b, l_c = - c\<rparr>
            else \<lparr>l_a = a, l_b = b, l_c = c\<rparr>))"

definition sameLine_f64 :: "(real \<Rightarrow> real \<Rightarrow> real) \<Rightarrow> Line \<Rightarrow> Line \<Rightarrow> bool" where
  "sameLine_f64 hyp u v =
     (let nu = (if hyp (l_a u) (l_b u) = 0 then 1 else hyp (l_a u) (l_b u));
          nv = (if hyp (l_a v) (l_b v) = 0 then 1 else hyp (l_a v) (l_b v));
          fu = fix_line_f64 (fl (l_a u / nu)) (fl (l_b u / nu)) (fl (l_c u / nu));
          fv = fix_line_f64 (fl (l_a v / nv)) (fl (l_b v / nv)) (fl (l_c v / nv))
      in \<bar>fl (l_a fu - l_a fv)\<bar> < fl (1 / 10 ^ 2) \<and> \<bar>fl (l_b fu - l_b fv)\<bar> < fl (1 / 10 ^ 2)
         \<and> \<bar>fl (l_c fu - l_c fv)\<bar> < fl (1 / 10 ^ 2))"

text \<open>The sign rule of \<open>lineFromPoints\<close>, as a function of the unit normal.\<close>

definition sign_rule :: "real \<Rightarrow> real \<Rightarrow> real \<times> real" where
  "sign_rule a b =
     (if \<bar>a\<bar> < EPS_f64 then (if b < 0 then (- a, - b) else (a, b))
      else if a < 0 then (- a, - b) else (a, b))"

text \<open>The origin, and the point \<open>(3 \<cdot> 2\<^sup>4\<^sup>5, 2\<^sup>4\<^sup>7)\<close>.\<close>

definition origin :: Pt where
  "origin = \<lparr>pt_x = 0, pt_y = 0\<rparr>"

definition far_point :: Pt where
  "far_point = \<lparr>pt_x = 105553116266496, pt_y = 140737488355328\<rparr>"

section \<open>Point membership and binding status\<close>

text \<open>
  C4. For every point and constraint, \<open>insideHalfPlane\<close> computes \<open>s = a\<cdot>x + b\<cdot>y\<close> and
  returns \<open>s \<le> c + \<epsilon>\<close> for \<open>\<le>\<close>, \<open>s < c - \<epsilon>\<close> for \<open><\<close>, \<open>s \<ge> c - \<epsilon>\<close> for \<open>\<ge>\<close> and
  \<open>s > c + \<epsilon>\<close> for \<open>>\<close>, with \<open>\<epsilon> = 1e-9\<close>. For \<open>2x + y \<le> 12\<close> the point \<open>(0,0)\<close> is
  accepted, \<open>(6,0)\<close> is accepted and classified binding, and \<open>(7,0)\<close> is rejected.
\<close>

theorem insideHalfPlane_tests:
  "insideHalfPlane p (k\<lparr>k_comp := Le\<rparr>) = (k_a k * pt_x p + k_b k * pt_y p \<le> k_c k + 1 / 10 ^ 9)
   \<and> insideHalfPlane p (k\<lparr>k_comp := Lt\<rparr>) = (k_a k * pt_x p + k_b k * pt_y p < k_c k - 1 / 10 ^ 9)
   \<and> insideHalfPlane p (k\<lparr>k_comp := Ge\<rparr>) = (k_a k * pt_x p + k_b k * pt_y p \<ge> k_c k - 1 / 10 ^ 9)
   \<and> insideHalfPlane p (k\<lparr>k_comp := Gt\<rparr>) = (k_a k * pt_x p + k_b k * pt_y p > k_c k + 1 / 10 ^ 9)
   \<and> insideHalfPlane \<lparr>pt_x = 0, pt_y = 0\<rparr> budget
   \<and> insideHalfPlane \<lparr>pt_x = 6, pt_y = 0\<rparr> budget
   \<and> bindingStatus \<lparr>pt_x = 6, pt_y = 0\<rparr> budget = Binding
   \<and> \<not> insideHalfPlane \<lparr>pt_x = 7, pt_y = 0\<rparr> budget"
  by (simp add: insideHalfPlane_def bindingStatus_def budget_def)




text \<open>
  For the strict comparators the tolerance works the other way: what
  \<open>insideHalfPlane\<close> accepts satisfies the comparator exactly.
\<close>

lemma strict_tolerance_tightens:
  assumes "k_comp k = Lt \<or> k_comp k = Gt" and "insideHalfPlane p k"
  shows "satisfiesExactly p k"
  using assms by (auto simp: satisfiesExactly_def insideHalfPlane_def)

section \<open>Line canonicalization\<close>


lemma hypot_nonneg: "0 \<le> hypot a b"
  by (simp add: hypot_def)

lemma hypot_or_1_pos: "0 < hypot_or_1 a b"
  using hypot_nonneg [of a b] by (simp add: hypot_or_1_def)


section \<open>Clipping at the first level\<close>

text \<open>The cleanup test \<open>hypot dx dy > 1e-6\<close> without the square root, for evaluation.\<close>

lemma hypot_gt_iff: "0 \<le> t \<Longrightarrow> (t < hypot a b) = (t\<^sup>2 < a\<^sup>2 + b\<^sup>2)"
  unfolding hypot_def
  by (metis real_sqrt_less_iff real_sqrt_abs abs_of_nonneg)

lemma hypot_gt_tol: "(1 < hypot a b * 1000000) = (1 < (a * a + b * b) * 1000000000000)"
  using hypot_gt_iff [of "1 / 10 ^ 6" a b]
  by (simp add: power_divide field_simps power2_eq_square)

lemma clip_rect_budget:
  "clipPolyByHalfPlane (initRect level1_dom) budget =
     [\<lparr>pt_x = 0, pt_y = 0\<rparr>, \<lparr>pt_x = 6, pt_y = 0\<rparr>, \<lparr>pt_x = 12, pt_y = - 12\<rparr>,
      \<lparr>pt_x = 0, pt_y = 12\<rparr>]"
  by (simp add: clipPolyByHalfPlane_def initRect_def level1_dom_def budget_def
      insideHalfPlane_def intersectLineSegWithLine_def Let_def hypot_gt_tol)

lemma clip_rect_security:
  "clipPolyByHalfPlane (initRect level1_dom) security =
     [\<lparr>pt_x = 2, pt_y = 0\<rparr>, \<lparr>pt_x = 12, pt_y = 0\<rparr>, \<lparr>pt_x = 12, pt_y = 12\<rparr>]"
  by (simp add: clipPolyByHalfPlane_def initRect_def level1_dom_def security_def
      insideHalfPlane_def intersectLineSegWithLine_def Let_def hypot_gt_tol)

lemma feasible_budget_security:
  "feasiblePolygon level1_dom [budget, security] =
     [\<lparr>pt_x = 2, pt_y = 0\<rparr>, \<lparr>pt_x = 6, pt_y = 0\<rparr>, \<lparr>pt_x = 2, pt_y = 8\<rparr>,
      \<lparr>pt_x = 12, pt_y = - 12\<rparr>]"
  unfolding feasiblePolygon_def foldl.simps clip_rect_budget
  by (simp add: clipPolyByHalfPlane_def security_def
      insideHalfPlane_def intersectLineSegWithLine_def Let_def hypot_gt_tol)

lemma feasible_security_budget:
  "feasiblePolygon level1_dom [security, budget] =
     [\<lparr>pt_x = 9 / 2, pt_y = 3\<rparr>, \<lparr>pt_x = 2, pt_y = 0\<rparr>]"
  unfolding feasiblePolygon_def foldl.simps clip_rect_security
  by (simp add: clipPolyByHalfPlane_def budget_def
      insideHalfPlane_def intersectLineSegWithLine_def Let_def hypot_gt_tol)

lemma area_budget_security:
  "polygonArea [\<lparr>pt_x = 2, pt_y = 0\<rparr>, \<lparr>pt_x = 6, pt_y = 0\<rparr>, \<lparr>pt_x = 2, pt_y = 8\<rparr>,
      \<lparr>pt_x = 12, pt_y = - 12\<rparr>] = 24"
  by (simp add: polygonArea_def shoelace_term_def Let_def upt_rec)

text \<open>
  The walk of the specification, and the sibling \<open>clipRectByHalfPlane\<close>, which
  recomputes the status of \<open>S\<close> on every edge, on the same inputs.
\<close>

lemma spec_rect_budget:
  "clipPolySpec (initRect level1_dom) budget =
     [\<lparr>pt_x = 0, pt_y = 0\<rparr>, \<lparr>pt_x = 6, pt_y = 0\<rparr>, \<lparr>pt_x = 0, pt_y = 12\<rparr>]"
  by (simp add: clipPolySpec_def initRect_def level1_dom_def budget_def
      insideHalfPlane_def intersectLineSegWithLine_def Let_def hypot_gt_tol)

lemma spec_rect_security:
  "clipPolySpec (initRect level1_dom) security =
     [\<lparr>pt_x = 2, pt_y = 0\<rparr>, \<lparr>pt_x = 12, pt_y = 0\<rparr>, \<lparr>pt_x = 12, pt_y = 12\<rparr>,
      \<lparr>pt_x = 2, pt_y = 12\<rparr>]"
  by (simp add: clipPolySpec_def initRect_def level1_dom_def security_def
      insideHalfPlane_def intersectLineSegWithLine_def Let_def hypot_gt_tol)

lemma spec_budget_security:
  "foldl clipPolySpec (initRect level1_dom) [budget, security] =
     [\<lparr>pt_x = 2, pt_y = 0\<rparr>, \<lparr>pt_x = 6, pt_y = 0\<rparr>, \<lparr>pt_x = 2, pt_y = 8\<rparr>]"
  unfolding foldl.simps spec_rect_budget
  by (simp add: clipPolySpec_def security_def
      insideHalfPlane_def intersectLineSegWithLine_def Let_def hypot_gt_tol)

lemma spec_security_budget:
  "foldl clipPolySpec (initRect level1_dom) [security, budget] =
     [\<lparr>pt_x = 2, pt_y = 8\<rparr>, \<lparr>pt_x = 2, pt_y = 0\<rparr>, \<lparr>pt_x = 6, pt_y = 0\<rparr>]"
  unfolding foldl.simps spec_rect_security
  by (simp add: clipPolySpec_def budget_def
      insideHalfPlane_def intersectLineSegWithLine_def Let_def hypot_gt_tol)

lemma spec_area_16:
  "polygonArea [\<lparr>pt_x = 2, pt_y = 0\<rparr>, \<lparr>pt_x = 6, pt_y = 0\<rparr>, \<lparr>pt_x = 2, pt_y = 8\<rparr>] = 16
   \<and> polygonArea [\<lparr>pt_x = 2, pt_y = 8\<rparr>, \<lparr>pt_x = 2, pt_y = 0\<rparr>, \<lparr>pt_x = 6, pt_y = 0\<rparr>] = 16"
  by (simp add: polygonArea_def shoelace_term_def Let_def upt_rec)

lemma clipRect_sibling:
  "clipRectByHalfPlane \<lparr>xmin = 0, xmax = 12, ymin = 0, ymax = 12, dstep = 1\<rparr>
     \<lparr>i_a = 2, i_b = 1, i_c = 12, i_comp = Le\<rparr> =
     [\<lparr>pt_x = 0, pt_y = 0\<rparr>, \<lparr>pt_x = 6, pt_y = 0\<rparr>, \<lparr>pt_x = 0, pt_y = 12\<rparr>,
      \<lparr>pt_x = 0, pt_y = 12\<rparr>]"
  by (simp add: clipRectByHalfPlane_def insideHalfPlane_H_def inter_def Let_def)

text \<open>
  C1. The claim: \<open>clipPolyByHalfPlane\<close> decides each edge \<open>(S \<rightarrow> E)\<close> by the status of
  that edge's own start vertex. On the domain rectangle of level 1 and \<open>2x + y \<le> 12\<close> the
  code differs from that walk: on the edge \<open>(12,0) \<rightarrow> (12,12)\<close>, both ends outside, it
  still emits the intersection \<open>(12,-12)\<close>, because \<open>S_in\<close> is the status of the last
  vertex \<open>(0,12)\<close> throughout.
\<close>

theorem clip_stale_start_status:
  "clipPolyByHalfPlane (initRect level1_dom) budget =
     [\<lparr>pt_x = 0, pt_y = 0\<rparr>, \<lparr>pt_x = 6, pt_y = 0\<rparr>, \<lparr>pt_x = 12, pt_y = - 12\<rparr>,
      \<lparr>pt_x = 0, pt_y = 12\<rparr>]
   \<and> clipPolySpec (initRect level1_dom) budget =
     [\<lparr>pt_x = 0, pt_y = 0\<rparr>, \<lparr>pt_x = 6, pt_y = 0\<rparr>, \<lparr>pt_x = 0, pt_y = 12\<rparr>]"
  using clip_rect_budget spec_rect_budget by (rule conjI)

text \<open>
  C2. The claim: \<open>feasiblePolygon\<close> yields the same region for every permutation of the
  constraint list. On level 1 the code returns a polygon of area \<open>24\<close> for
  \<open>[budget, security]\<close> and a two-vertex list of area \<open>0\<close> for \<open>[security, budget]\<close>.
\<close>

theorem feasiblePolygon_order_dependent:
  "polygonArea (feasiblePolygon level1_dom [budget, security]) = 24
   \<and> polygonArea (feasiblePolygon level1_dom [security, budget]) = 0"
  unfolding feasible_budget_security feasible_security_budget area_budget_security
  by (simp add: polygonArea_def)

text \<open>
  C3. The claim: on level 1, \<open>feasiblePolygon\<close> returns the triangle
  \<open>(2,0), (6,0), (2,8)\<close> of area \<open>16\<close>. The code returns a fourth vertex \<open>(12,-12)\<close>,
  outside the domain, and the area \<open>24\<close>.
\<close>

theorem feasiblePolygon_level1:
  "feasiblePolygon level1_dom [budget, security] =
     [\<lparr>pt_x = 2, pt_y = 0\<rparr>, \<lparr>pt_x = 6, pt_y = 0\<rparr>, \<lparr>pt_x = 2, pt_y = 8\<rparr>,
      \<lparr>pt_x = 12, pt_y = - 12\<rparr>]
   \<and> polygonArea (feasiblePolygon level1_dom [budget, security]) = 24"
  unfolding feasible_budget_security area_budget_security by simp

section \<open>Polygon area\<close>

text \<open>The index loop of \<open>polygonArea\<close> sums the cross products along the closed walk.\<close>

lemma foldl_add_sum_list: "foldl (\<lambda>s i. s + f i) a xs = a + sum_list (map f xs)"
  by (induction xs arbitrary: a) (simp_all add: add.assoc)

lemma pair_sum_nth:
  "pair_sum ys = sum_list (map (\<lambda>i. cross (ys ! i) (ys ! Suc i)) [0..<length ys - 1])"
proof (induction ys rule: pair_sum.induct)
  case (1 p q rest)
  have "[0..<Suc (length rest)] = 0 # map Suc [0..<length rest]"
    by (simp add: upt_conv_Cons map_Suc_upt del: upt_Suc)
  then show ?case using 1 by (simp add: comp_def del: upt_Suc)
qed simp_all

lemma shoelace_term_closed:
  assumes "i < length poly"
  shows "shoelace_term poly i =
         cross ((poly @ take 1 poly) ! i) ((poly @ take 1 poly) ! Suc i)"
proof (cases "Suc i < length poly")
  case True
  then show ?thesis
    by (simp add: shoelace_term_def cross_def nth_append Let_def)
next
  case False
  with assms have i: "Suc i = length poly" by simp
  from assms have ne: "poly \<noteq> []" by auto
  then have "(poly @ take 1 poly) ! Suc i = poly ! 0"
    by (cases poly) (simp_all add: i nth_append)
  then show ?thesis using assms i
    by (simp add: shoelace_term_def cross_def nth_append Let_def)
qed

lemma shoelace_loop_closed:
  assumes "poly \<noteq> []"
  shows "foldl (\<lambda>s i. s + shoelace_term poly i) 0 [0..<length poly] = shoelace_closed poly"
proof -
  from assms have len: "length (poly @ take 1 poly) - 1 = length poly"
    by (cases poly) simp_all
  have m: "map (shoelace_term poly) [0..<length poly] =
        map (\<lambda>i. cross ((poly @ take 1 poly) ! i) ((poly @ take 1 poly) ! Suc i)) [0..<length poly]"
    by (rule map_cong) (simp_all add: shoelace_term_closed)
  show ?thesis
    unfolding foldl_add_sum_list shoelace_closed_def pair_sum_nth len m by simp
qed

lemma polygonArea_closed:
  "polygonArea poly = (if length poly < 3 then 0 else \<bar>shoelace_closed poly\<bar> / 2)"
proof (cases "length poly < 3")
  case True
  then show ?thesis by (simp add: polygonArea_def)
next
  case False
  then have "poly \<noteq> []" by auto
  then show ?thesis using False
    by (simp add: polygonArea_def shoelace_loop_closed Let_def)
qed

lemma pair_sum_snoc: "pair_sum (ys @ [z, w]) = pair_sum (ys @ [z]) + cross z w"
  by (induction ys rule: pair_sum.induct) simp_all

lemma pair_sum_Cons: "ys \<noteq> [] \<Longrightarrow> pair_sum (p # ys) = cross p (hd ys) + pair_sum ys"
  by (cases ys) simp_all

lemma shoelace_closed_rotate1: "shoelace_closed (rotate1 poly) = shoelace_closed poly"
proof (cases poly)
  case Nil
  then show ?thesis by simp
next
  case (Cons p ps)
  have "shoelace_closed (rotate1 poly) = pair_sum (ps @ [p, hd (ps @ [p])])"
    by (cases ps) (simp_all add: Cons shoelace_closed_def)
  also have "\<dots> = pair_sum (ps @ [p]) + cross p (hd (ps @ [p]))"
    by (rule pair_sum_snoc)
  also have "\<dots> = pair_sum (p # (ps @ [p]))"
    by (simp add: pair_sum_Cons)
  also have "\<dots> = shoelace_closed poly"
    by (simp add: Cons shoelace_closed_def)
  finally show ?thesis .
qed

lemma shoelace_closed_rotate: "shoelace_closed (rotate n poly) = shoelace_closed poly"
  by (induction n) (simp_all add: shoelace_closed_rotate1)

text \<open>
  Over exact reals \<open>polygonArea\<close> is never negative, is \<open>0\<close> for fewer than three
  vertices, is otherwise the absolute value of half the signed shoelace sum over the
  implicitly closed vertex sequence, and does not change under a cyclic rotation.
\<close>

lemma polygonArea_exact:
  "0 \<le> polygonArea poly
   \<and> polygonArea poly = (if length poly < 3 then 0 else \<bar>shoelace_closed poly\<bar> / 2)
   \<and> polygonArea (rotate n poly) = polygonArea poly"
  by (simp add: polygonArea_closed shoelace_closed_rotate)

section \<open>Polygon area in binary64\<close>

text \<open>Rounding to the nearest integer, and to the nearest double.\<close>

lemma rne_error: "\<bar>of_int (rne y) - y\<bar> \<le> 1 / 2"
proof -
  have "of_int \<lfloor>y\<rfloor> \<le> y" and "y < of_int \<lfloor>y\<rfloor> + 1"
    by linarith+
  then show ?thesis
    by (auto simp: rne_def Let_def)
qed

lemma rne_of_int [simp]: "rne (of_int n) = n"
  by (simp add: rne_def)


lemma rne_minus: "rne (- y) = - rne y"
proof (cases "y = of_int \<lfloor>y\<rfloor>")
  case True
  then obtain n :: int where "y = of_int n" ..
  then have "- y = of_int (- n)" by simp
  then show ?thesis unfolding \<open>y = of_int n\<close> by (metis rne_of_int)
next
  case False
  then have c: "\<lceil>y\<rceil> = \<lfloor>y\<rfloor> + 1"
    by (metis ceiling_altdef)
  have f: "\<lfloor>- y\<rfloor> = - \<lfloor>y\<rfloor> - 1"
    by (simp add: floor_minus c)
  show ?thesis
    unfolding rne_def Let_def f by auto
qed

lemma one_less_two_real: "(1::real) < 2"
  by simp

lemma powr2_int: "2 powr real_of_int k = (2::real) powi k"
  by (rule powr_real_of_int') simp_all

lemma floor_log2_bracket:
  assumes "x \<noteq> 0"
  shows "2 powi \<lfloor>log 2 \<bar>x\<bar>\<rfloor> \<le> \<bar>x\<bar>" and "\<bar>x\<bar> < 2 powi (\<lfloor>log 2 \<bar>x\<bar>\<rfloor> + 1)"
proof -
  from assms have pos: "0 < \<bar>x\<bar>" by simp
  have "2 powr real_of_int \<lfloor>log 2 \<bar>x\<bar>\<rfloor> \<le> \<bar>x\<bar>
        \<and> \<bar>x\<bar> < 2 powr real_of_int (\<lfloor>log 2 \<bar>x\<bar>\<rfloor> + 1)"
    using floor_log_eq_powr_iff [OF pos one_less_two_real, of "\<lfloor>log 2 \<bar>x\<bar>\<rfloor>"] by blast
  then show "2 powi \<lfloor>log 2 \<bar>x\<bar>\<rfloor> \<le> \<bar>x\<bar>" and "\<bar>x\<bar> < 2 powi (\<lfloor>log 2 \<bar>x\<bar>\<rfloor> + 1)"
    unfolding powr2_int by blast+
qed

lemma floor_log2_unique:
  assumes "2 powi k \<le> \<bar>x\<bar>" and "\<bar>x\<bar> < 2 powi (k + 1)"
  shows "\<lfloor>log 2 \<bar>x\<bar>\<rfloor> = k"
proof -
  have "(0::real) < 2 powi k" by simp
  with assms have pos: "0 < \<bar>x\<bar>" by linarith
  have "2 powr real_of_int k \<le> \<bar>x\<bar> \<and> \<bar>x\<bar> < 2 powr real_of_int (k + 1)"
    unfolding powr2_int using assms by blast
  then show ?thesis
    using floor_log_eq_powr_iff [OF pos one_less_two_real, of k] by blast
qed

lemma fl_0 [simp]: "fl 0 = 0"
  by (simp add: fl_def)

lemma fl_minus: "fl (- x) = - fl x"
  by (simp add: fl_def Let_def rne_minus)


lemma fl_eval:
  assumes "2 powi k \<le> \<bar>x\<bar>" and "\<bar>x\<bar> < 2 powi (k + 1)" and "- 1022 \<le> k"
  shows "fl x = of_int (rne (x / 2 powi (k - 52))) * 2 powi (k - 52)"
proof -
  have "(0::real) < 2 powi k" by simp
  with assms(1) have "0 < \<bar>x\<bar>" by linarith
  then have "x \<noteq> 0" by simp
  moreover have "max (k - 52) (- 1074) = k - 52"
    using assms(3) by simp
  ultimately show ?thesis
    using floor_log2_unique [OF assms(1,2)] by (simp add: fl_def Let_def)
qed

lemma fl_error: "\<bar>fl x - x\<bar> \<le> \<bar>x\<bar> / 2 ^ 53 + 1 / 2 ^ 1075"
proof (cases "x = 0")
  case True
  then show ?thesis by simp
next
  case False
  define E where "E = \<lfloor>log 2 \<bar>x\<bar>\<rfloor>"
  define e where "e = max (E - 52) (- 1074)"
  have p: "(0::real) < 2 powi e" by simp
  have f: "fl x = of_int (rne (x / 2 powi e)) * 2 powi e"
    using False by (simp add: fl_def e_def E_def Let_def)
  have "fl x - x = (of_int (rne (x / 2 powi e)) - x / 2 powi e) * 2 powi e"
    unfolding f using p by (simp add: field_simps)
  then have "\<bar>fl x - x\<bar> = \<bar>of_int (rne (x / 2 powi e)) - x / 2 powi e\<bar> * 2 powi e"
    using p by (simp add: abs_mult)
  also have "\<dots> \<le> 1 / 2 * 2 powi e"
    using rne_error [of "x / 2 powi e"] p by (intro mult_right_mono) simp_all
  finally have b: "\<bar>fl x - x\<bar> \<le> 2 powi e / 2" by simp
  show ?thesis
  proof (cases "- 1074 \<le> E - 52")
    case True
    then have "e = E - 52" by (simp add: e_def)
    then have "(2::real) powi e = 2 powi E / 2 ^ 52"
      by (simp add: power_int_diff)
    moreover have "2 powi E \<le> \<bar>x\<bar>"
      unfolding E_def using False by (rule floor_log2_bracket)
    ultimately have "2 powi e / 2 \<le> \<bar>x\<bar> / 2 ^ 53"
      by (simp add: field_simps)
    with b show ?thesis by (smt (verit) zero_le_divide_iff zero_le_power)
  next
    case False
    then have "e = - 1074" by (simp add: e_def)
    then have "(2::real) powi e / 2 = 1 / 2 ^ 1075"
      by (simp add: power_int_minus field_simps)
    with b have "\<bar>fl x - x\<bar> \<le> 1 / 2 ^ 1075" by simp
    moreover have "0 \<le> \<bar>x\<bar> / 2 ^ 53" by simp
    ultimately show ?thesis by linarith
  qed
qed












text \<open>The doubles of \<open>tri\<close>, and the roundings on the way to its area.\<close>

lemma tri_doubles:
  "fl (72 / 10) = 8106479329266893 / 1125899906842624"
  "fl (108 / 10) = 3039929748475085 / 281474976710656"
  "fl (102 / 10) = 2871044762448691 / 281474976710656"
  "fl (97 / 10) = 2730307274093363 / 281474976710656"
  "fl (8 / 10) = 3602879701896397 / 4503599627370496"
  "fl (32 / 10) = 3602879701896397 / 1125899906842624"
  by (subst fl_eval [where k = 2], simp_all add: rne_def Let_def,
      subst fl_eval [where k = 3], simp_all add: rne_def Let_def,
      subst fl_eval [where k = 3], simp_all add: rne_def Let_def,
      subst fl_eval [where k = 3], simp_all add: rne_def Let_def,
      subst fl_eval [where k = "- 1"], simp_all add: rne_def Let_def,
      subst fl_eval [where k = 1], simp_all add: rne_def Let_def)























section \<open>Clipping a polygon that already satisfies the constraint\<close>

text \<open>
  When every vertex is inside, the edge loop copies the polygon, so the result is what
  the cleanup loop leaves of it.
\<close>

lemma clip_loop_all_inside:
  "\<forall>v\<in>set ps. insideHalfPlane v k \<Longrightarrow> clip_loop k True S ps out = out @ ps"
  by (induction ps arbitrary: S out) (simp_all add: Let_def)

lemma clip_all_inside_cleanup:
  assumes "\<forall>v\<in>set poly. insideHalfPlane v k"
  shows "clipPolyByHalfPlane poly k = cleanup_loop poly []"
proof (cases "poly = []")
  case True
  then show ?thesis by (simp add: clipPolyByHalfPlane_def)
next
  case False
  then have "insideHalfPlane (last poly) k"
    using assms by simp
  then show ?thesis
    using False assms by (simp add: clipPolyByHalfPlane_def Let_def clip_loop_all_inside)
qed

lemma cleanup_loop_subseq:
  "\<exists>zs. cleanup_loop ps acc = acc @ zs \<and> subseq zs ps"
proof (induction ps arbitrary: acc)
  case Nil
  show ?case by simp
next
  case (Cons p ps)
  show ?case
  proof (cases "acc = [] \<or>
      hypot (pt_x p - pt_x (last acc)) (pt_y p - pt_y (last acc)) > 1 / 10 ^ 6")
    case True
    from Cons.IH [of "acc @ [p]"] obtain zs
      where "cleanup_loop ps (acc @ [p]) = (acc @ [p]) @ zs" and "subseq zs ps"
      by blast
    with True have "cleanup_loop (p # ps) acc = acc @ (p # zs) \<and> subseq (p # zs) (p # ps)"
      by simp
    then show ?thesis by blast
  next
    case False
    from Cons.IH [of acc] obtain zs
      where "cleanup_loop ps acc = acc @ zs" and "subseq zs ps"
      by blast
    with False have "cleanup_loop (p # ps) acc = acc @ zs \<and> subseq zs (p # ps)"
      by (simp add: list_emb_Cons)
    then show ?thesis by blast
  qed
qed

lemma near_refl: "near p p"
  by (simp add: near_def hypot_def)

lemma cleanup_loop_keeps_acc: "set acc \<subseteq> set (cleanup_loop ps acc)"
  using cleanup_loop_subseq [of ps acc] by auto

lemma cleanup_loop_near:
  "\<forall>v\<in>set ps. \<exists>w\<in>set (cleanup_loop ps acc). near v w"
proof (induction ps arbitrary: acc)
  case Nil
  show ?case by simp
next
  case (Cons p ps)
  show ?case
  proof (cases "acc = [] \<or>
      hypot (pt_x p - pt_x (last acc)) (pt_y p - pt_y (last acc)) > 1 / 10 ^ 6")
    case True
    then have r: "cleanup_loop (p # ps) acc = cleanup_loop ps (acc @ [p])"
      by simp
    have "p \<in> set (cleanup_loop ps (acc @ [p]))"
      using cleanup_loop_keeps_acc [of "acc @ [p]" ps] by auto
    then have "\<exists>w\<in>set (cleanup_loop ps (acc @ [p])). near p w"
      using near_refl by blast
    then show ?thesis
      unfolding r using Cons.IH [of "acc @ [p]"] by simp
  next
    case False
    then have r: "cleanup_loop (p # ps) acc = cleanup_loop ps acc"
      by simp
    from False have "acc \<noteq> []" and "near p (last acc)"
      by (simp_all add: near_def)
    moreover have "last acc \<in> set (cleanup_loop ps acc)"
      using cleanup_loop_keeps_acc [of acc ps] \<open>acc \<noteq> []\<close> by auto
    ultimately have "\<exists>w\<in>set (cleanup_loop ps acc). near p w"
      by blast
    then show ?thesis
      unfolding r using Cons.IH [of acc] by simp
  qed
qed

lemma cleanup_loop_far:
  "successively (\<lambda>p q. \<not> near q p) (if acc = [] then ps else last acc # ps)
   \<Longrightarrow> cleanup_loop ps acc = acc @ ps"
proof (induction ps arbitrary: acc)
  case Nil
  show ?case by simp
next
  case (Cons p ps)
  have keep: "acc = [] \<or>
      hypot (pt_x p - pt_x (last acc)) (pt_y p - pt_y (last acc)) > 1 / 10 ^ 6"
    using Cons.prems by (cases "acc = []") (simp_all add: near_def)
  have "successively (\<lambda>p q. \<not> near q p) (p # ps)"
    using Cons.prems by (cases "acc = []") simp_all
  then have "cleanup_loop ps (acc @ [p]) = (acc @ [p]) @ ps"
    using Cons.IH [of "acc @ [p]"] by simp
  with keep show ?case by simp
qed

lemma near_iff: "near p q = ((pt_x p - pt_x q) * (pt_x p - pt_x q)
     + (pt_y p - pt_y q) * (pt_y p - pt_y q) \<le> 1 / 10 ^ 12)"
  using hypot_gt_iff [of "1 / 10 ^ 6" "pt_x p - pt_x q" "pt_y p - pt_y q"]
  by (simp add: near_def power_divide power2_eq_square not_less [symmetric])

text \<open>
  C8. Clipping is idempotent on feasible input: if every vertex of the polygon is inside
  the constraint, \<open>clipPolyByHalfPlane\<close> returns the same polygon up to vertex order
  and tolerance. Here: the result keeps vertices of the polygon in their order, every
  vertex of the polygon is within \<open>1e-6\<close> of a vertex of the result, and the result is
  the polygon itself when no vertex is within \<open>1e-6\<close> of its predecessor.
\<close>

theorem clip_feasible_idempotent:
  assumes "\<forall>v\<in>set poly. insideHalfPlane v k"
  shows "subseq (clipPolyByHalfPlane poly k) poly
         \<and> (\<forall>v\<in>set poly. \<exists>w\<in>set (clipPolyByHalfPlane poly k). near v w)
         \<and> (successively (\<lambda>p q. \<not> near q p) poly \<longrightarrow> clipPolyByHalfPlane poly k = poly)"
proof -
  have c: "clipPolyByHalfPlane poly k = cleanup_loop poly []"
    using assms by (rule clip_all_inside_cleanup)
  have "subseq (cleanup_loop poly []) poly"
    using cleanup_loop_subseq [of poly "[]"] by auto
  moreover have "\<forall>v\<in>set poly. \<exists>w\<in>set (cleanup_loop poly []). near v w"
    by (rule cleanup_loop_near)
  moreover have "successively (\<lambda>p q. \<not> near q p) poly \<longrightarrow> cleanup_loop poly [] = poly"
    using cleanup_loop_far [of "[]" poly] by simp
  ultimately show ?thesis
    unfolding c by blast
qed

theorem clip_feasible_idempotent_witness:
  "insideHalfPlane \<lparr>pt_x = 2, pt_y = 0\<rparr> budget
   \<and> insideHalfPlane \<lparr>pt_x = 6, pt_y = 0\<rparr> budget
   \<and> insideHalfPlane \<lparr>pt_x = 2, pt_y = 8\<rparr> budget
   \<and> successively (\<lambda>p q. \<not> near q p)
        [\<lparr>pt_x = 2, pt_y = 0\<rparr>, \<lparr>pt_x = 6, pt_y = 0\<rparr>, \<lparr>pt_x = 2, pt_y = 8\<rparr>]
   \<and> clipPolyByHalfPlane [\<lparr>pt_x = 2, pt_y = 0\<rparr>, \<lparr>pt_x = 6, pt_y = 0\<rparr>, \<lparr>pt_x = 2, pt_y = 8\<rparr>]
        budget
      = [\<lparr>pt_x = 2, pt_y = 0\<rparr>, \<lparr>pt_x = 6, pt_y = 0\<rparr>, \<lparr>pt_x = 2, pt_y = 8\<rparr>]"
proof -
  have a: "\<forall>v\<in>set [\<lparr>pt_x = 2, pt_y = 0\<rparr>, \<lparr>pt_x = 6, pt_y = 0\<rparr>, \<lparr>pt_x = 2, pt_y = 8\<rparr>].
      insideHalfPlane v budget"
    by (simp add: insideHalfPlane_def budget_def)
  have s: "successively (\<lambda>p q. \<not> near q p)
        [\<lparr>pt_x = 2, pt_y = 0\<rparr>, \<lparr>pt_x = 6, pt_y = 0\<rparr>, \<lparr>pt_x = 2, pt_y = 8\<rparr>]"
    by (simp add: near_iff)
  from clip_feasible_idempotent [OF a] a s show ?thesis by simp
qed

section \<open>Symmetry of the canonical line\<close>

text \<open>
  Swapping the two points negates the normal before the sign rule; the sign rule then
  picks the same representative, and both points lie on the line, so the offset agrees.
\<close>

lemma hypot_neg: "hypot (- a) (- b) = hypot a b"
  by (simp add: hypot_def)

lemma hypot_or_1_neg: "hypot_or_1 (- a) (- b) = hypot_or_1 a b"
  by (simp add: hypot_or_1_def hypot_neg)

lemma lineFromPoints_normal:
  "lineFromPoints p1 p2 =
     (let n = hypot_or_1 (pt_y p2 - pt_y p1) (pt_x p1 - pt_x p2);
          f = fix_line ((pt_y p2 - pt_y p1) / n) ((pt_x p1 - pt_x p2) / n) 0
      in \<lparr>l_a = l_a f, l_b = l_b f, l_c = l_a f * pt_x p1 + l_b f * pt_y p1\<rparr>)"
  by (simp add: lineFromPoints_def fix_line_def Let_def)

lemma fix_line_neg: "b \<noteq> 0 \<or> EPS \<le> \<bar>a\<bar> \<Longrightarrow> fix_line (- a) (- b) 0 = fix_line a b 0"
  by (auto simp: fix_line_def EPS_def)

lemma sameLine_refl: "sameLine u u"
  by (simp add: sameLine_def Let_def)

lemma hypot_0_right: "hypot a 0 = \<bar>a\<bar>"
  by (simp add: hypot_def)

lemma fix_line_parallel: "l_a (fix_line a b c) * b = l_b (fix_line a b c) * a"
  by (simp add: fix_line_def)

lemma lineFromPoints_sym: "lineFromPoints p1 p2 = lineFromPoints p2 p1"
proof -
  define dx where "dx = pt_x p2 - pt_x p1"
  define dy where "dy = pt_y p2 - pt_y p1"
  define n where "n = hypot_or_1 dy (- dx)"
  define A where "A = dy / n"
  define B where "B = - dx / n"
  define f where "f = fix_line A B 0"
  have npos: "0 < n" unfolding n_def by (rule hypot_or_1_pos)
  have n1: "hypot_or_1 (pt_y p2 - pt_y p1) (pt_x p1 - pt_x p2) = n"
    by (simp add: n_def dx_def dy_def)
  have n2: "hypot_or_1 (pt_y p1 - pt_y p2) (pt_x p2 - pt_x p1) = n"
    using hypot_or_1_neg [of dy "- dx"] by (simp add: n_def dx_def dy_def)
  have fneg: "fix_line (- A) (- B) 0 = f"
  proof (cases "B \<noteq> 0 \<or> EPS \<le> \<bar>A\<bar>")
    case True
    then show ?thesis unfolding f_def by (rule fix_line_neg)
  next
    case False
    then have "B = 0" and small: "\<bar>A\<bar> < EPS" by simp_all
    then have dx0: "dx = 0" using npos by (simp add: B_def)
    have "dy = 0"
    proof (rule ccontr)
      assume "dy \<noteq> 0"
      then have "n = \<bar>dy\<bar>"
        by (simp add: n_def dx0 hypot_or_1_def hypot_0_right)
      then have "\<bar>A\<bar> = 1" using \<open>dy \<noteq> 0\<close> by (simp add: A_def)
      with small show False by (simp add: EPS_def)
    qed
    then have "A = 0" by (simp add: A_def)
    with \<open>B = 0\<close> show ?thesis by (simp add: f_def)
  qed
  have l1: "lineFromPoints p1 p2 =
      \<lparr>l_a = l_a f, l_b = l_b f, l_c = l_a f * pt_x p1 + l_b f * pt_y p1\<rparr>"
    unfolding lineFromPoints_normal n1
    by (simp add: f_def A_def B_def dx_def dy_def Let_def)
  have "(pt_y p1 - pt_y p2) / n = - A" and "(pt_x p2 - pt_x p1) / n = - B"
    using npos by (simp_all add: A_def B_def dx_def dy_def field_simps)
  then have l2: "lineFromPoints p2 p1 =
      \<lparr>l_a = l_a f, l_b = l_b f, l_c = l_a f * pt_x p2 + l_b f * pt_y p2\<rparr>"
    unfolding lineFromPoints_normal n2 by (simp add: fneg Let_def)
  have "l_a f * B = l_b f * A"
    unfolding f_def by (rule fix_line_parallel)
  then have "l_a f * (- dx) = l_b f * dy"
    using npos by (simp add: A_def B_def field_simps)
  then have "l_a f * pt_x p1 + l_b f * pt_y p1 = l_a f * pt_x p2 + l_b f * pt_y p2"
    by (simp add: dx_def dy_def algebra_simps)
  with l1 l2 show ?thesis by simp
qed

text \<open>
  Over exact reals the two canonical triples are equal, so they satisfy \<open>sameLine\<close>.
\<close>

lemma lineFromPoints_exact_symmetric:
  "lineFromPoints p1 p2 = lineFromPoints p2 p1
   \<and> sameLine (lineFromPoints p1 p2) (lineFromPoints p2 p1)"
  using lineFromPoints_sym [of p1 p2] sameLine_refl [of "lineFromPoints p2 p1"] by simp

text \<open>An instance with distinct points: the line through \<open>(0,0)\<close> and \<open>(3,4)\<close>.\<close>

lemma hypot_3_4: "hypot 4 (- 3) = 5"
proof -
  have "sqrt 25 = (5::real)" by (rule real_sqrt_unique) simp_all
  then show ?thesis by (simp add: hypot_def)
qed

lemma lineFromPoints_example:
  "lineFromPoints \<lparr>pt_x = 0, pt_y = 0\<rparr> \<lparr>pt_x = 3, pt_y = 4\<rparr>
     = \<lparr>l_a = 4 / 5, l_b = - 3 / 5, l_c = 0\<rparr>"
  by (simp add: lineFromPoints_def hypot_or_1_def hypot_3_4 EPS_def)

section \<open>Symmetry of the canonical line in binary64\<close>

text \<open>
  Swapping the points negates the rounded differences and the rounded unit normal,
  since rounding is odd; the sign rule then picks the same normal. The two offsets are
  rounded from different products and differ by the rounding errors, which grow with the
  coordinates.
\<close>

lemma fl_err_num:
  assumes "\<bar>x\<bar> \<le> c" and "c / 2 ^ 53 + 1 / 2 ^ 1075 \<le> e"
  shows "\<bar>fl x - x\<bar> \<le> e"
proof -
  have "\<bar>x\<bar> / 2 ^ 53 \<le> c / 2 ^ 53"
    using assms(1) by (simp add: divide_right_mono)
  with fl_error [of x] assms(2) show ?thesis by linarith
qed

lemma abs_le_add:
  fixes a b :: real
  shows "\<bar>a - b\<bar> \<le> e \<Longrightarrow> \<bar>b\<bar> \<le> c \<Longrightarrow> \<bar>a\<bar> \<le> c + e"
  by (simp add: abs_le_iff)

lemma abs_ge_sub:
  fixes a b :: real
  assumes "\<bar>a - b\<bar> \<le> e" and "c \<le> \<bar>b\<bar>"
  shows "c - e \<le> \<bar>a\<bar>"
proof -
  have "\<bar>b\<bar> - \<bar>a\<bar> \<le> \<bar>b - a\<bar>" by (rule abs_triangle_ineq2)
  also have "\<dots> = \<bar>a - b\<bar>" by (rule abs_minus_commute)
  also note assms(1)
  finally have "\<bar>b\<bar> - \<bar>a\<bar> \<le> e" .
  then have "\<bar>b\<bar> - e \<le> \<bar>a\<bar>" by (simp add: algebra_simps)
  moreover from assms(2) have "c - e \<le> \<bar>b\<bar> - e" by simp
  ultimately show ?thesis by (rule order_trans [rotated])
qed

lemma fl_nonzero_lower:
  assumes "fl x \<noteq> 0"
  shows "1 / 2 ^ 1074 \<le> \<bar>fl x\<bar>"
proof -
  from assms have x: "x \<noteq> 0" by auto
  define e where "e = max (\<lfloor>log 2 \<bar>x\<bar>\<rfloor> - 52) (- 1074)"
  define r where "r = rne (x / 2 powi e)"
  have f: "fl x = of_int r * 2 powi e"
    using x by (simp add: fl_def Let_def e_def r_def)
  with assms have "r \<noteq> 0" by auto
  then have "1 \<le> \<bar>real_of_int r\<bar>" by linarith
  moreover have "(2::real) powi (- 1074) \<le> 2 powi e"
    by (rule power_int_increasing) (simp_all add: e_def)
  moreover have "\<bar>fl x\<bar> = \<bar>real_of_int r\<bar> * 2 powi e"
    unfolding f by (simp add: abs_mult)
  moreover have "(0::real) < 2 powi e" by simp
  ultimately have "2 powi (- 1074) \<le> \<bar>fl x\<bar>"
    by (smt (verit) mult_le_cancel_right1)
  then show ?thesis by (simp add: power_int_minus field_simps)
qed

lemma hypot_cr_ok: "hypot_ok hypot_cr"
proof -
  have "\<bar>fl s - s\<bar> \<le> s / 2 ^ 50 + 1 / 2 ^ 1075" if "0 \<le> s" for s :: real
  proof -
    have "s / 2 ^ 53 \<le> s / 2 ^ 50"
      using that by (simp add: field_simps)
    with fl_error [of s] that show ?thesis by simp
  qed
  then show ?thesis
    by (simp add: hypot_ok_def hypot_cr_def)
qed

lemma hyp_bounds:
  assumes ok: "hypot_ok hyp"
    and nz: "a \<noteq> 0 \<or> b \<noteq> 0"
    and da: "a = 0 \<or> 1 / 2 ^ 1074 \<le> \<bar>a\<bar>" and db: "b = 0 \<or> 1 / 2 ^ 1074 \<le> \<bar>b\<bar>"
  defines "s \<equiv> sqrt (a\<^sup>2 + b\<^sup>2)"
  shows "s / 3 \<le> hyp a b" and "hyp a b \<le> 2 * s" and "\<bar>a\<bar> \<le> s" and "\<bar>b\<bar> \<le> s"
    and "s \<le> \<bar>a\<bar> + \<bar>b\<bar>" and "1 / 2 ^ 1074 \<le> s"
proof -
  have "sqrt (a\<^sup>2) \<le> sqrt (a\<^sup>2 + b\<^sup>2)" and "sqrt (b\<^sup>2) \<le> sqrt (a\<^sup>2 + b\<^sup>2)"
    by (rule real_sqrt_le_mono, simp)+
  then show a: "\<bar>a\<bar> \<le> s" and b: "\<bar>b\<bar> \<le> s"
    by (simp_all add: s_def)
  show "s \<le> \<bar>a\<bar> + \<bar>b\<bar>" unfolding s_def by (rule sqrt_sum_squares_le_sum_abs)
  show low: "1 / 2 ^ 1074 \<le> s"
    using nz da db a b by auto
  have "\<bar>hyp a b - s\<bar> \<le> s / 2 ^ 50 + 1 / 2 ^ 1075"
    using ok by (simp add: hypot_ok_def s_def)
  also have "\<dots> \<le> s / 2 ^ 50 + s / 2"
  proof -
    from low have "(1 / 2 ^ 1074) / 2 \<le> s / 2"
      by (rule divide_right_mono) simp
    then show ?thesis by simp
  qed
  finally have e: "\<bar>hyp a b - s\<bar> \<le> s / 2 ^ 50 + s / 2" .
  have s0: "0 \<le> s" using a by linarith
  have "s / 2 ^ 50 \<le> s / 6" using s0 by simp
  with e have e': "\<bar>hyp a b - s\<bar> \<le> 2 / 3 * s" by simp
  have "hyp a b - s \<le> 2 / 3 * s" and "- (hyp a b - s) \<le> 2 / 3 * s"
    using e' by (rule abs_le_D1, rule abs_le_D2)
  then show "s / 3 \<le> hyp a b" and "hyp a b \<le> 2 * s"
    using s0 by linarith+
qed

lemma EPS_f64_bounds: "0 < EPS_f64" "EPS_f64 < 1 / 8"
proof -
  have "\<bar>fl (1 / 10 ^ 6) - 1 / 10 ^ 6\<bar> \<le> 1 / 10 ^ 7"
    by (rule fl_err_num [where c = "1 / 10 ^ 6"]) simp_all
  then have "- (fl (1 / 10 ^ 6) - 1 / 10 ^ 6) \<le> 1 / 10 ^ 7" and "fl (1 / 10 ^ 6) - 1 / 10 ^ 6 \<le> 1 / 10 ^ 7"
    by (rule abs_le_D2, rule abs_le_D1)
  then show "0 < EPS_f64" "EPS_f64 < 1 / 8"
    unfolding EPS_f64_def by simp_all
qed

lemma tol_f64_bound: "99 / 10000 \<le> fl (1 / 10 ^ 2)"
proof -
  have "\<bar>fl (1 / 10 ^ 2) - 1 / 10 ^ 2\<bar> \<le> 1 / 10 ^ 4"
    by (rule fl_err_num [where c = "1 / 10 ^ 2"]) simp_all
  then have "- (fl (1 / 10 ^ 2) - 1 / 10 ^ 2) \<le> 1 / 10 ^ 4"
    by (rule abs_le_D2)
  then show ?thesis by simp
qed

lemma sign_rule_cases: "sign_rule a b = (a, b) \<or> sign_rule a b = (- a, - b)"
  by (simp add: sign_rule_def)

lemma sign_rule_neg:
  assumes "b \<noteq> 0 \<or> EPS_f64 \<le> \<bar>a\<bar> \<or> a = 0"
  shows "sign_rule (- a) (- b) = sign_rule a b"
  using assms EPS_f64_bounds(1) by (auto simp: sign_rule_def)

lemma lineFromPoints_f64_sign_rule:
  "lineFromPoints_f64 hyp p1 p2 =
     (let dx = fl (pt_x p2 - pt_x p1); dy = fl (pt_y p2 - pt_y p1);
          n = (if hyp dy (- dx) = 0 then 1 else hyp dy (- dx));
          ab = sign_rule (fl (dy / n)) (fl (- dx / n))
      in \<lparr>l_a = fst ab, l_b = snd ab,
          l_c = fl (fl (fst ab * pt_x p1) + fl (snd ab * pt_y p1))\<rparr>)"
  by (simp add: lineFromPoints_f64_def sign_rule_def Let_def)

lemma unit_normal:
  assumes ok: "hypot_ok hyp" and dx: "dx = fl ex" and dy: "dy = fl ey"
    and nz: "dx \<noteq> 0 \<or> dy \<noteq> 0"
  defines "n \<equiv> hyp dy (- dx)"
  shows "0 < n" and "\<bar>dx\<bar> \<le> 3 * n" and "\<bar>dy\<bar> \<le> 3 * n"
    and "n \<le> 4 * \<bar>dx\<bar> \<or> n \<le> 4 * \<bar>dy\<bar>" and "1 / 2 ^ 1074 \<le> 3 * n"
proof -
  define s where "s = sqrt (dy\<^sup>2 + (- dx)\<^sup>2)"
  have da: "dy = 0 \<or> 1 / 2 ^ 1074 \<le> \<bar>dy\<bar>"
    unfolding dy using fl_nonzero_lower [of ey] by blast
  have db: "- dx = 0 \<or> 1 / 2 ^ 1074 \<le> \<bar>- dx\<bar>"
    unfolding dx using fl_nonzero_lower [of ex] by auto
  have nz': "dy \<noteq> 0 \<or> - dx \<noteq> 0" using nz by auto
  note h = hyp_bounds [OF ok nz' da db, folded s_def n_def]
  have s3: "s \<le> 3 * n" using h(1) by simp
  show "0 < n" using h(1) h(6) by (smt (verit) divide_pos_pos zero_less_power)
  show "\<bar>dx\<bar> \<le> 3 * n" using h(4) s3 by simp
  show "\<bar>dy\<bar> \<le> 3 * n" using h(3) s3 by simp
  show "1 / 2 ^ 1074 \<le> 3 * n" using h(6) s3 by (rule order_trans)
  define X where "X = \<bar>dx\<bar>"
  define Y where "Y = \<bar>dy\<bar>"
  have "n \<le> 2 * (Y + X)" using h(2) h(5) by (simp add: X_def Y_def)
  then have "n \<le> 4 * X \<or> n \<le> 4 * Y" by (cases "X \<le> Y") simp_all
  then show "n \<le> 4 * \<bar>dx\<bar> \<or> n \<le> 4 * \<bar>dy\<bar>" by (simp add: X_def Y_def)
qed

lemma quotient_round:
  assumes n: "0 < n" and d: "\<bar>d\<bar> \<le> 3 * n"
  shows "\<bar>fl (d / n) - d / n\<bar> \<le> 1 / 2 ^ 51" and "\<bar>fl (d / n)\<bar> \<le> 4"
    and "n \<le> 4 * \<bar>d\<bar> \<Longrightarrow> 1 / 8 \<le> \<bar>fl (d / n)\<bar>"
proof -
  have q: "\<bar>d / n\<bar> \<le> 3"
    using n d by (simp add: field_simps)
  show e: "\<bar>fl (d / n) - d / n\<bar> \<le> 1 / 2 ^ 51"
    using q by (rule fl_err_num) simp
  have "\<bar>fl (d / n)\<bar> \<le> 3 + 1 / 2 ^ 51"
    using e q by (rule abs_le_add)
  then show "\<bar>fl (d / n)\<bar> \<le> 4" by simp
  assume "n \<le> 4 * \<bar>d\<bar>"
  then have "1 / 4 \<le> \<bar>d / n\<bar>"
    using n by (simp add: field_simps)
  with e have "1 / 4 - 1 / 2 ^ 51 \<le> \<bar>fl (d / n)\<bar>"
    by (rule abs_ge_sub)
  then show "1 / 8 \<le> \<bar>fl (d / n)\<bar>" by simp
qed

lemma abs_sum4:
  fixes w1 w2 w3 w4 :: real
  shows "\<bar>w1\<bar> \<le> e1 \<Longrightarrow> \<bar>w2\<bar> \<le> e2 \<Longrightarrow> \<bar>w3\<bar> \<le> e3 \<Longrightarrow> \<bar>w4\<bar> \<le> e4
         \<Longrightarrow> \<bar>w1 - w2 + w3 - w4\<bar> \<le> e1 + e2 + e3 + e4"
  by (simp add: abs_le_iff)

lemma normal_orthogonal:
  assumes ok: "hypot_ok hyp" and ex: "\<bar>ex\<bar> \<le> 2 ^ 31" and ey: "\<bar>ey\<bar> \<le> 2 ^ 31"
    and dx: "dx = fl ex" and dy: "dy = fl ey" and nz: "dx \<noteq> 0 \<or> dy \<noteq> 0"
    and n: "n = hyp dy (- dx)" and a: "a = fl (dy / n)" and b: "b = fl (- dx / n)"
  shows "\<bar>a * ex + b * ey\<bar> \<le> 1 / 2 ^ 16"
proof -
  note un = unit_normal [OF ok dx dy nz, folded n]
  define vx where "vx = dx - ex"
  define vy where "vy = dy - ey"
  define va where "va = a - dy / n"
  define vb where "vb = fl (dx / n) - dx / n"
  have n0: "0 < n" by (rule un(1))
  have bneg: "b = - fl (dx / n)"
    unfolding b using fl_minus [of "dx / n"] by simp
  have vx: "\<bar>vx\<bar> \<le> 1 / 2 ^ 21"
    unfolding vx_def dx using ex by (rule fl_err_num) simp
  have vy: "\<bar>vy\<bar> \<le> 1 / 2 ^ 21"
    unfolding vy_def dy using ey by (rule fl_err_num) simp
  have va: "\<bar>va\<bar> \<le> 1 / 2 ^ 51"
    unfolding va_def a using n0 un(3) by (rule quotient_round(1))
  have vb: "\<bar>vb\<bar> \<le> 1 / 2 ^ 51"
    unfolding vb_def using n0 un(2) by (rule quotient_round(1))
  have small_n: "\<bar>z\<bar> \<le> 7 * n" if z: "\<bar>fl z\<bar> \<le> 3 * n" for z
  proof -
    have "\<bar>z\<bar> \<le> 3 * n + (\<bar>z\<bar> / 2 ^ 53 + 1 / 2 ^ 1075)"
    proof -
      have "\<bar>z - fl z\<bar> \<le> \<bar>z\<bar> / 2 ^ 53 + 1 / 2 ^ 1075"
        using fl_error [of z] by (simp add: abs_minus_commute)
      then show ?thesis using z by (rule abs_le_add)
    qed
    moreover have "(1::real) / 2 ^ 1075 \<le> 3 * n"
      using un(5) by (rule order_trans [rotated]) simp
    ultimately have "\<bar>z\<bar> * (1 - 1 / 2 ^ 53) \<le> 6 * n"
      by (simp add: algebra_simps)
    moreover have "\<bar>z\<bar> * (6 / 7) \<le> \<bar>z\<bar> * (1 - 1 / 2 ^ 53)"
      by (rule mult_left_mono) simp_all
    ultimately show ?thesis by simp
  qed
  have ex5: "\<bar>ex\<bar> \<le> 7 * n" using un(2) unfolding dx by (rule small_n)
  have ey5: "\<bar>ey\<bar> \<le> 7 * n" using un(3) unfolding dy by (rule small_n)
  have id: "a * ex + b * ey = (vy * ex - vx * ey) / n + va * ex - vb * ey"
    unfolding bneg using n0
    by (simp add: vx_def vy_def va_def vb_def field_simps)
  have t1: "\<bar>vy * ex / n\<bar> \<le> 7 / 2 ^ 21"
  proof -
    have "\<bar>vy * ex / n\<bar> = \<bar>vy\<bar> * (\<bar>ex\<bar> / n)"
      using n0 by (simp add: abs_mult)
    also have "\<dots> \<le> 1 / 2 ^ 21 * 7"
      using vy ex5 n0 by (intro mult_mono) (simp_all add: field_simps)
    finally show ?thesis by simp
  qed
  have t2: "\<bar>vx * ey / n\<bar> \<le> 7 / 2 ^ 21"
  proof -
    have "\<bar>vx * ey / n\<bar> = \<bar>vx\<bar> * (\<bar>ey\<bar> / n)"
      using n0 by (simp add: abs_mult)
    also have "\<dots> \<le> 1 / 2 ^ 21 * 7"
      using vx ey5 n0 by (intro mult_mono) (simp_all add: field_simps)
    finally show ?thesis by simp
  qed
  have t3: "\<bar>va * ex\<bar> \<le> 1 / 2 ^ 20"
  proof -
    have "\<bar>va * ex\<bar> = \<bar>va\<bar> * \<bar>ex\<bar>" by (rule abs_mult)
    also have "\<dots> \<le> 1 / 2 ^ 51 * 2 ^ 31"
      using va ex by (intro mult_mono) simp_all
    finally show ?thesis by simp
  qed
  have t4: "\<bar>vb * ey\<bar> \<le> 1 / 2 ^ 20"
  proof -
    have "\<bar>vb * ey\<bar> = \<bar>vb\<bar> * \<bar>ey\<bar>" by (rule abs_mult)
    also have "\<dots> \<le> 1 / 2 ^ 51 * 2 ^ 31"
      using vb ey by (intro mult_mono) simp_all
    finally show ?thesis by simp
  qed
  have "a * ex + b * ey = vy * ex / n - vx * ey / n + va * ex - vb * ey"
    unfolding id by (simp add: diff_divide_distrib)
  moreover have "\<bar>vy * ex / n - vx * ey / n + va * ex - vb * ey\<bar>
        \<le> 7 / 2 ^ 21 + 7 / 2 ^ 21 + 1 / 2 ^ 20 + 1 / 2 ^ 20"
    using t1 t2 t3 t4 by (rule abs_sum4)
  ultimately show ?thesis by simp
qed

lemma abs_sum3:
  fixes w1 w2 w3 :: real
  shows "\<bar>w1\<bar> \<le> e1 \<Longrightarrow> \<bar>w2\<bar> \<le> e2 \<Longrightarrow> \<bar>w3\<bar> \<le> e3 \<Longrightarrow> \<bar>w1 + w2 + w3\<bar> \<le> e1 + e2 + e3"
  by (simp add: abs_le_iff)

lemma offset_round:
  assumes A: "\<bar>A\<bar> \<le> 4" and B: "\<bar>B\<bar> \<le> 4" and x: "\<bar>x\<bar> \<le> 2 ^ 30" and y: "\<bar>y\<bar> \<le> 2 ^ 30"
  shows "\<bar>fl (fl (A * x) + fl (B * y)) - (A * x + B * y)\<bar> \<le> 1 / 2 ^ 17"
    and "\<bar>fl (fl (A * x) + fl (B * y))\<bar> \<le> 2 ^ 34"
proof -
  define p where "p = A * x"
  define q where "q = B * y"
  define fp where "fp = fl p"
  define fq where "fq = fl q"
  have p: "\<bar>p\<bar> \<le> 2 ^ 32"
  proof -
    have "\<bar>p\<bar> = \<bar>A\<bar> * \<bar>x\<bar>" unfolding p_def by (rule abs_mult)
    also have "\<dots> \<le> 4 * 2 ^ 30" using A x by (intro mult_mono) simp_all
    finally show ?thesis by simp
  qed
  have q: "\<bar>q\<bar> \<le> 2 ^ 32"
  proof -
    have "\<bar>q\<bar> = \<bar>B\<bar> * \<bar>y\<bar>" unfolding q_def by (rule abs_mult)
    also have "\<dots> \<le> 4 * 2 ^ 30" using B y by (intro mult_mono) simp_all
    finally show ?thesis by simp
  qed
  have ep: "\<bar>fp - p\<bar> \<le> 1 / 2 ^ 20"
    unfolding fp_def using p by (rule fl_err_num) simp
  have eq: "\<bar>fq - q\<bar> \<le> 1 / 2 ^ 20"
    unfolding fq_def using q by (rule fl_err_num) simp
  have "\<bar>fp\<bar> \<le> 2 ^ 32 + 1 / 2 ^ 20" using ep p by (rule abs_le_add)
  moreover have "\<bar>fq\<bar> \<le> 2 ^ 32 + 1 / 2 ^ 20" using eq q by (rule abs_le_add)
  ultimately have "\<bar>fp + fq\<bar> \<le> (2 ^ 32 + 1 / 2 ^ 20) + (2 ^ 32 + 1 / 2 ^ 20)"
    by (rule abs_triangle_ineq [THEN order_trans, OF add_mono])
  then have s: "\<bar>fp + fq\<bar> \<le> 2 ^ 34" by simp
  have es: "\<bar>fl (fp + fq) - (fp + fq)\<bar> \<le> 1 / 2 ^ 18"
    using s by (rule fl_err_num) simp
  have id: "(fl (fp + fq) - (fp + fq)) + (fp - p) + (fq - q) = fl (fp + fq) - (p + q)"
    by simp
  have "\<bar>fl (fp + fq) - (p + q)\<bar> \<le> 1 / 2 ^ 18 + 1 / 2 ^ 20 + 1 / 2 ^ 20"
    using abs_sum3 [OF es ep eq] unfolding id .
  moreover have "(1::real) / 2 ^ 18 + 1 / 2 ^ 20 + 1 / 2 ^ 20 \<le> 1 / 2 ^ 17"
    by simp
  ultimately have e: "\<bar>fl (fp + fq) - (p + q)\<bar> \<le> 1 / 2 ^ 17"
    by (rule order_trans)
  then show "\<bar>fl (fl (A * x) + fl (B * y)) - (A * x + B * y)\<bar> \<le> 1 / 2 ^ 17"
    unfolding fp_def fq_def p_def q_def .
  have "\<bar>p + q\<bar> \<le> 2 ^ 32 + 2 ^ 32"
    using p q by (rule abs_triangle_ineq [THEN order_trans, OF add_mono])
  with e have "\<bar>fl (fp + fq)\<bar> \<le> (2 ^ 32 + 2 ^ 32) + 1 / 2 ^ 17"
    by (rule abs_le_add)
  moreover have "(2 ^ 32 + 2 ^ 32) + 1 / 2 ^ 17 \<le> (2::real) ^ 34"
    by simp
  ultimately have "\<bar>fl (fp + fq)\<bar> \<le> 2 ^ 34"
    by (rule order_trans)
  then show "\<bar>fl (fl (A * x) + fl (B * y))\<bar> \<le> 2 ^ 34"
    unfolding fp_def fq_def p_def q_def .
qed

lemma fix_line_f64_common:
  "l_a (fix_line_f64 a b c) = l_a (fix_line_f64 a b c')"
  "l_b (fix_line_f64 a b c) = l_b (fix_line_f64 a b c')"
  "\<bar>fl (l_c (fix_line_f64 a b c) - l_c (fix_line_f64 a b c'))\<bar> = \<bar>fl (c - c')\<bar>"
proof -
  show "l_a (fix_line_f64 a b c) = l_a (fix_line_f64 a b c')"
    and "l_b (fix_line_f64 a b c) = l_b (fix_line_f64 a b c')"
    by (simp_all add: fix_line_f64_def)
  have "fl (- c - - c') = - fl (c - c')"
    using fl_minus [of "c - c'"] by simp
  then show "\<bar>fl (l_c (fix_line_f64 a b c) - l_c (fix_line_f64 a b c'))\<bar> = \<bar>fl (c - c')\<bar>"
    by (simp add: fix_line_f64_def)
qed

lemma sameLine_f64_common:
  fixes hyp :: "real \<Rightarrow> real \<Rightarrow> real"
  assumes "l_a u = l_a v" and "l_b u = l_b v"
  defines "nu \<equiv> (if hyp (l_a u) (l_b u) = 0 then 1 else hyp (l_a u) (l_b u))"
  shows "sameLine_f64 hyp u v = (\<bar>fl (fl (l_c u / nu) - fl (l_c v / nu))\<bar> < fl (1 / 10 ^ 2))"
proof -
  have pos: "\<bar>fl 0\<bar> < fl (1 / 10 ^ 2)"
    using tol_f64_bound by simp
  show ?thesis
    unfolding sameLine_f64_def Let_def assms(1,2) [symmetric] nu_def [symmetric]
    using pos by (simp add: fix_line_f64_common [of "fl (l_a u / nu)" "fl (l_b u / nu)"
          "fl (l_c u / nu)" "fl (l_c v / nu)"])
qed

lemma sign_rule_abs:
  "\<bar>fst (sign_rule a b)\<bar> = \<bar>a\<bar>" "\<bar>snd (sign_rule a b)\<bar> = \<bar>b\<bar>"
  "\<bar>fst (sign_rule a b) * x + snd (sign_rule a b) * y\<bar> = \<bar>a * x + b * y\<bar>"
proof -
  have "- a * x + - b * y = - (a * x + b * y)" by simp
  then have "\<bar>- a * x + - b * y\<bar> = \<bar>a * x + b * y\<bar>"
    by (simp only: abs_minus_cancel)
  then show "\<bar>fst (sign_rule a b)\<bar> = \<bar>a\<bar>" "\<bar>snd (sign_rule a b)\<bar> = \<bar>b\<bar>"
    "\<bar>fst (sign_rule a b) * x + snd (sign_rule a b) * y\<bar> = \<bar>a * x + b * y\<bar>"
    using sign_rule_cases [of a b] by auto
qed

lemma line_pair:
  fixes p1 p2 :: Pt
  assumes ok: "hypot_ok hyp"
  defines "ex \<equiv> pt_x p2 - pt_x p1" and "ey \<equiv> pt_y p2 - pt_y p1"
  shows "\<exists>A B.
     lineFromPoints_f64 hyp p1 p2
       = \<lparr>l_a = A, l_b = B, l_c = fl (fl (A * pt_x p1) + fl (B * pt_y p1))\<rparr>
     \<and> lineFromPoints_f64 hyp p2 p1
       = \<lparr>l_a = A, l_b = B, l_c = fl (fl (A * pt_x p2) + fl (B * pt_y p2))\<rparr>
     \<and> ((A = 0 \<and> B = 0)
        \<or> (\<bar>A\<bar> \<le> 4 \<and> \<bar>B\<bar> \<le> 4 \<and> (1 / 8 \<le> \<bar>A\<bar> \<or> 1 / 8 \<le> \<bar>B\<bar>)
           \<and> (A = 0 \<or> 1 / 2 ^ 1074 \<le> \<bar>A\<bar>) \<and> (B = 0 \<or> 1 / 2 ^ 1074 \<le> \<bar>B\<bar>)
           \<and> (\<bar>ex\<bar> \<le> 2 ^ 31 \<and> \<bar>ey\<bar> \<le> 2 ^ 31 \<longrightarrow> \<bar>A * ex + B * ey\<bar> \<le> 1 / 2 ^ 16)))"
proof -
  define dx where "dx = fl ex"
  define dy where "dy = fl ey"
  define n where "n = (if hyp dy (- dx) = 0 then 1 else hyp dy (- dx))"
  define a where "a = fl (dy / n)"
  define b where "b = fl (- dx / n)"
  define A where "A = fst (sign_rule a b)"
  define B where "B = snd (sign_rule a b)"
  have sym: "hyp (- dy) dx = hyp dy (- dx)"
    using ok [unfolded hypot_ok_def, THEN conjunct1, rule_format, of dy "- dx"] by simp
  have L1: "lineFromPoints_f64 hyp p1 p2
       = \<lparr>l_a = A, l_b = B, l_c = fl (fl (A * pt_x p1) + fl (B * pt_y p1))\<rparr>"
    unfolding lineFromPoints_f64_sign_rule Let_def
    by (simp add: A_def B_def a_def b_def n_def dx_def dy_def ex_def ey_def)
  have rx: "fl (pt_x p1 - pt_x p2) = - dx"
    using fl_minus [of ex] by (simp add: dx_def ex_def)
  have ry: "fl (pt_y p1 - pt_y p2) = - dy"
    using fl_minus [of ey] by (simp add: dy_def ey_def)
  have ra: "fl (- dy / n) = - a"
    using fl_minus [of "dy / n"] by (simp add: a_def)
  have rb: "fl (dx / n) = - b"
    using fl_minus [of "dx / n"] by (simp add: b_def)
  have rb': "fl (- (- dx) / n) = - b"
    using rb by simp
  have n2: "(if hyp (- dy) (- (- dx)) = 0 then 1 else hyp (- dy) (- (- dx))) = n"
    by (simp add: sym n_def)
  have L2': "lineFromPoints_f64 hyp p2 p1
       = \<lparr>l_a = fst (sign_rule (- a) (- b)), l_b = snd (sign_rule (- a) (- b)),
          l_c = fl (fl (fst (sign_rule (- a) (- b)) * pt_x p2)
                    + fl (snd (sign_rule (- a) (- b)) * pt_y p2))\<rparr>"
    unfolding lineFromPoints_f64_sign_rule Let_def rx ry n2 ra rb' by (rule refl)
  show ?thesis
  proof (cases "dx = 0 \<and> dy = 0")
    case True
    then have ab: "a = 0" "b = 0" by (simp_all add: a_def b_def)
    then have "A = 0" "B = 0"
      using EPS_f64_bounds(1) by (simp_all add: A_def B_def sign_rule_def)
    moreover have "sign_rule (- a) (- b) = sign_rule a b"
      by (simp add: ab)
    ultimately show ?thesis
      using L1 L2' by (simp add: A_def B_def)
  next
    case False
    then have nz: "dx \<noteq> 0 \<or> dy \<noteq> 0" by blast
    note un = unit_normal [OF ok dx_def dy_def nz]
    have n: "n = hyp dy (- dx)"
      using un(1) by (simp add: n_def)
    have n0: "0 < n" using un(1) n by simp
    have dxn: "\<bar>dx\<bar> \<le> 3 * n" and dyn: "\<bar>dy\<bar> \<le> 3 * n"
      using un(2,3) n by simp_all
    have big: "n \<le> 4 * \<bar>dx\<bar> \<or> n \<le> 4 * \<bar>dy\<bar>"
      using un(4) n by simp
    have bneg: "b = - fl (dx / n)" using rb by simp
    have a4: "\<bar>a\<bar> \<le> 4" unfolding a_def using n0 dyn by (rule quotient_round(2))
    have b4: "\<bar>b\<bar> \<le> 4" unfolding bneg abs_minus_cancel using n0 dxn by (rule quotient_round(2))
    have large: "1 / 8 \<le> \<bar>a\<bar> \<or> 1 / 8 \<le> \<bar>b\<bar>"
      using big
    proof
      assume "n \<le> 4 * \<bar>dx\<bar>"
      with n0 dxn have "1 / 8 \<le> \<bar>fl (dx / n)\<bar>" by (rule quotient_round(3))
      then show ?thesis by (simp add: bneg)
    next
      assume "n \<le> 4 * \<bar>dy\<bar>"
      with n0 dyn have "1 / 8 \<le> \<bar>fl (dy / n)\<bar>" by (rule quotient_round(3))
      then show ?thesis by (simp add: a_def)
    qed
    have da: "a = 0 \<or> 1 / 2 ^ 1074 \<le> \<bar>a\<bar>"
      unfolding a_def using fl_nonzero_lower [of "dy / n"] by blast
    have db: "b = 0 \<or> 1 / 2 ^ 1074 \<le> \<bar>b\<bar>"
      unfolding b_def using fl_nonzero_lower [of "- dx / n"] by blast
    have "b \<noteq> 0 \<or> EPS_f64 \<le> \<bar>a\<bar> \<or> a = 0"
      using large EPS_f64_bounds(2) by auto
    then have sr: "sign_rule (- a) (- b) = sign_rule a b"
      by (rule sign_rule_neg)
    have L2: "lineFromPoints_f64 hyp p2 p1
       = \<lparr>l_a = A, l_b = B, l_c = fl (fl (A * pt_x p2) + fl (B * pt_y p2))\<rparr>"
      using L2' by (simp add: sr A_def B_def)
    have orth: "\<bar>A * ex + B * ey\<bar> \<le> 1 / 2 ^ 16" if "\<bar>ex\<bar> \<le> 2 ^ 31" "\<bar>ey\<bar> \<le> 2 ^ 31"
      unfolding A_def B_def sign_rule_abs(3)
      using ok that dx_def dy_def nz n a_def b_def by (rule normal_orthogonal)
    have "\<bar>A\<bar> \<le> 4" "\<bar>B\<bar> \<le> 4" "1 / 8 \<le> \<bar>A\<bar> \<or> 1 / 8 \<le> \<bar>B\<bar>"
      "A = 0 \<or> 1 / 2 ^ 1074 \<le> \<bar>A\<bar>" "B = 0 \<or> 1 / 2 ^ 1074 \<le> \<bar>B\<bar>"
      using a4 b4 large da db sign_rule_cases [of a b]
      unfolding A_def B_def sign_rule_abs(1,2) by auto
    with L1 L2 orth show ?thesis by blast
  qed
qed

lemma abs_diff_bound:
  fixes x y :: real
  shows "\<bar>x\<bar> \<le> c \<Longrightarrow> \<bar>y\<bar> \<le> c \<Longrightarrow> \<bar>y - x\<bar> \<le> 2 * c"
  by (simp add: abs_le_iff)

lemma sameLine_f64_swap:
  assumes ok: "hypot_ok hyp"
    and b1: "\<bar>pt_x p1\<bar> \<le> 2 ^ 30" "\<bar>pt_y p1\<bar> \<le> 2 ^ 30"
    and b2: "\<bar>pt_x p2\<bar> \<le> 2 ^ 30" "\<bar>pt_y p2\<bar> \<le> 2 ^ 30"
  shows "l_a (lineFromPoints_f64 hyp p1 p2) = l_a (lineFromPoints_f64 hyp p2 p1)"
    and "l_b (lineFromPoints_f64 hyp p1 p2) = l_b (lineFromPoints_f64 hyp p2 p1)"
    and "sameLine_f64 hyp (lineFromPoints_f64 hyp p1 p2) (lineFromPoints_f64 hyp p2 p1)"
proof -
  define ex where "ex = pt_x p2 - pt_x p1"
  define ey where "ey = pt_y p2 - pt_y p1"
  define c1 where "c1 = l_c (lineFromPoints_f64 hyp p1 p2)"
  define c2 where "c2 = l_c (lineFromPoints_f64 hyp p2 p1)"
  from line_pair [OF ok, of p1 p2, folded ex_def ey_def] obtain A B where
    L1: "lineFromPoints_f64 hyp p1 p2
       = \<lparr>l_a = A, l_b = B, l_c = fl (fl (A * pt_x p1) + fl (B * pt_y p1))\<rparr>"
    and L2: "lineFromPoints_f64 hyp p2 p1
       = \<lparr>l_a = A, l_b = B, l_c = fl (fl (A * pt_x p2) + fl (B * pt_y p2))\<rparr>"
    and AB: "(A = 0 \<and> B = 0)
        \<or> (\<bar>A\<bar> \<le> 4 \<and> \<bar>B\<bar> \<le> 4 \<and> (1 / 8 \<le> \<bar>A\<bar> \<or> 1 / 8 \<le> \<bar>B\<bar>)
           \<and> (A = 0 \<or> 1 / 2 ^ 1074 \<le> \<bar>A\<bar>) \<and> (B = 0 \<or> 1 / 2 ^ 1074 \<le> \<bar>B\<bar>)
           \<and> (\<bar>ex\<bar> \<le> 2 ^ 31 \<and> \<bar>ey\<bar> \<le> 2 ^ 31 \<longrightarrow> \<bar>A * ex + B * ey\<bar> \<le> 1 / 2 ^ 16))"
    by blast
  show la: "l_a (lineFromPoints_f64 hyp p1 p2) = l_a (lineFromPoints_f64 hyp p2 p1)"
    and lb: "l_b (lineFromPoints_f64 hyp p1 p2) = l_b (lineFromPoints_f64 hyp p2 p1)"
    by (simp_all add: L1 L2)
  define nu where "nu = (if hyp A B = 0 then 1 else hyp A B)"
  have c1: "c1 = fl (fl (A * pt_x p1) + fl (B * pt_y p1))" by (simp add: c1_def L1)
  have c2: "c2 = fl (fl (A * pt_x p2) + fl (B * pt_y p2))" by (simp add: c2_def L2)
  have "sameLine_f64 hyp (lineFromPoints_f64 hyp p1 p2) (lineFromPoints_f64 hyp p2 p1)
        = (\<bar>fl (fl (c1 / nu) - fl (c2 / nu))\<bar> < fl (1 / 10 ^ 2))"
    using sameLine_f64_common [OF la lb, of hyp] by (simp add: c1_def c2_def nu_def L1)
  moreover have "\<bar>fl (fl (c1 / nu) - fl (c2 / nu))\<bar> < fl (1 / 10 ^ 2)"
  proof (cases "A = 0 \<and> B = 0")
    case True
    then have "c1 = 0" "c2 = 0" by (simp_all add: c1 c2)
    then show ?thesis using tol_f64_bound by simp
  next
    case False
    with AB have A4: "\<bar>A\<bar> \<le> 4" and B4: "\<bar>B\<bar> \<le> 4"
      and large: "1 / 8 \<le> \<bar>A\<bar> \<or> 1 / 8 \<le> \<bar>B\<bar>"
      and dA: "A = 0 \<or> 1 / 2 ^ 1074 \<le> \<bar>A\<bar>" and dB: "B = 0 \<or> 1 / 2 ^ 1074 \<le> \<bar>B\<bar>"
      and orth: "\<bar>ex\<bar> \<le> 2 ^ 31 \<and> \<bar>ey\<bar> \<le> 2 ^ 31 \<longrightarrow> \<bar>A * ex + B * ey\<bar> \<le> 1 / 2 ^ 16"
      by blast+
    from False have nz: "A \<noteq> 0 \<or> B \<noteq> 0" by blast
    define s where "s = sqrt (A\<^sup>2 + B\<^sup>2)"
    note h = hyp_bounds [OF ok nz dA dB, folded s_def]
    have "1 / 8 \<le> s" using large h(3) h(4) by auto
    then have "1 / 24 \<le> hyp A B" using h(1) by simp
    then have nu: "1 / 24 \<le> nu" by (simp add: nu_def)
    then have nu0: "0 < nu" by simp
    have "\<bar>ex\<bar> \<le> 2 * 2 ^ 30" unfolding ex_def using b1(1) b2(1) by (rule abs_diff_bound)
    moreover have "\<bar>ey\<bar> \<le> 2 * 2 ^ 30" unfolding ey_def using b1(2) b2(2) by (rule abs_diff_bound)
    ultimately have o: "\<bar>A * ex + B * ey\<bar> \<le> 1 / 2 ^ 16" using orth by simp
    define e1 where "e1 = A * pt_x p1 + B * pt_y p1"
    define e2 where "e2 = A * pt_x p2 + B * pt_y p2"
    have r1: "\<bar>c1 - e1\<bar> \<le> 1 / 2 ^ 17" and m1: "\<bar>c1\<bar> \<le> 2 ^ 34"
      unfolding c1 e1_def using A4 B4 b1 by (rule offset_round)+
    have r2: "\<bar>c2 - e2\<bar> \<le> 1 / 2 ^ 17" and m2: "\<bar>c2\<bar> \<le> 2 ^ 34"
      unfolding c2 e2_def using A4 B4 b2 by (rule offset_round)+
    have "e2 - e1 = A * ex + B * ey"
      by (simp add: e1_def e2_def ex_def ey_def algebra_simps)
    with o have o': "\<bar>e2 - e1\<bar> \<le> 1 / 2 ^ 16" by simp
    have r2': "\<bar>e2 - c2\<bar> \<le> 1 / 2 ^ 17" using r2 by (simp add: abs_minus_commute)
    have "\<bar>(c1 - e1) - (e2 - e1) + (e2 - c2) - 0\<bar> \<le> 1 / 2 ^ 17 + 1 / 2 ^ 16 + 1 / 2 ^ 17 + 0"
      using r1 o' r2' by (rule abs_sum4) simp
    then have cd: "\<bar>c1 - c2\<bar> \<le> 1 / 2 ^ 15" by simp
    define q1 where "q1 = c1 / nu"
    define q2 where "q2 = c2 / nu"
    have inv: "1 / nu \<le> 24" using nu nu0 by (simp add: field_simps)
    have qb: "\<bar>c / nu\<bar> \<le> 24 * m" if "\<bar>c\<bar> \<le> m" for c m
    proof -
      have "\<bar>c / nu\<bar> = \<bar>c\<bar> * (1 / nu)" using nu0 by simp
      also have "\<dots> \<le> m * 24"
        using that inv nu0 by (intro mult_mono) simp_all
      finally show ?thesis by simp
    qed
    have "\<bar>q1\<bar> \<le> 24 * 2 ^ 34" unfolding q1_def using m1 by (rule qb)
    then have f1: "\<bar>fl q1 - q1\<bar> \<le> 1 / 2 ^ 13" by (rule fl_err_num) simp
    have "\<bar>q2\<bar> \<le> 24 * 2 ^ 34" unfolding q2_def using m2 by (rule qb)
    then have "\<bar>fl q2 - q2\<bar> \<le> 1 / 2 ^ 13" by (rule fl_err_num) simp
    then have f2: "\<bar>q2 - fl q2\<bar> \<le> 1 / 2 ^ 13" by (simp add: abs_minus_commute)
    have "q1 - q2 = (c1 - c2) / nu" by (simp add: q1_def q2_def diff_divide_distrib)
    moreover have "\<bar>(c1 - c2) / nu\<bar> \<le> 24 * (1 / 2 ^ 15)" using cd by (rule qb)
    ultimately have qd: "\<bar>q1 - q2\<bar> \<le> 24 * (1 / 2 ^ 15)" by simp
    have "\<bar>(fl q1 - q1) + (q1 - q2) + (q2 - fl q2)\<bar> \<le> 1 / 2 ^ 13 + 24 * (1 / 2 ^ 15) + 1 / 2 ^ 13"
      using f1 qd f2 by (rule abs_sum3)
    then have d: "\<bar>fl q1 - fl q2\<bar> \<le> 1 / 2 ^ 9" by simp
    then have "\<bar>fl (fl q1 - fl q2) - (fl q1 - fl q2)\<bar> \<le> 1 / 2 ^ 10"
      by (rule fl_err_num) simp
    then have "\<bar>fl (fl q1 - fl q2)\<bar> \<le> 1 / 2 ^ 9 + 1 / 2 ^ 10"
      using d by (rule abs_le_add)
    also have "\<dots> < 99 / 10000" by simp
    also note tol_f64_bound
    finally show ?thesis by (simp add: q1_def q2_def)
  qed
  ultimately show "sameLine_f64 hyp (lineFromPoints_f64 hyp p1 p2) (lineFromPoints_f64 hyp p2 p1)"
    by simp
qed

text \<open>The roundings for the lines through the origin and \<open>(3 \<cdot> 2\<^sup>4\<^sup>5, 2\<^sup>4\<^sup>7)\<close>.\<close>

lemma fl_line_0: "fl 105553116266496 = 105553116266496"
  by (subst fl_eval [where k = 46]) (simp_all add: rne_def Let_def)

lemma fl_line_1: "fl 140737488355328 = 140737488355328"
  by (subst fl_eval [where k = 47]) (simp_all add: rne_def Let_def)

lemma fl_line_2: "fl 175921860444160 = 175921860444160"
  by (subst fl_eval [where k = 47]) (simp_all add: rne_def Let_def)

lemma fl_line_3: "fl (4 / 5) = 3602879701896397 / 4503599627370496"
  by (subst fl_eval [where k = "- 1"]) (simp_all add: rne_def Let_def)

lemma fl_line_4: "fl (3 / 5) = 5404319552844595 / 9007199254740992"
  by (subst fl_eval [where k = "- 1"]) (simp_all add: rne_def Let_def)

lemma fl_line_5: "fl (10808639105689191 / 128) = 1351079888211149 / 16"
  by (subst fl_eval [where k = 46]) (simp_all add: rne_def Let_def)

lemma fl_line_6: "fl (5404319552844595 / 64) = 5404319552844595 / 64"
  by (subst fl_eval [where k = 46]) (simp_all add: rne_def Let_def)

lemma fl_line_7: "fl (1 / 64) = 1 / 64"
  by (subst fl_eval [where k = "- 6"]) (simp_all add: rne_def Let_def)

lemma fl_line_8: "fl (3602879701896397 / 4503599627370496) = 3602879701896397 / 4503599627370496"
  by (subst fl_eval [where k = "- 1"]) (simp_all add: rne_def Let_def)

lemma fl_line_9: "fl (5404319552844595 / 9007199254740992) = 5404319552844595 / 9007199254740992"
  by (subst fl_eval [where k = "- 1"]) (simp_all add: rne_def Let_def)

lemma rne_floor_half:
  assumes "of_int n \<le> y" and "y < of_int n + 1 / 2"
  shows "rne y = n"
proof -
  have "\<lfloor>y\<rfloor> = n"
    using assms by (intro floor_unique) simp_all
  then show ?thesis
    using assms by (simp add: rne_def Let_def)
qed

lemma fl_sqrt_one:
  assumes "1 \<le> x" and "x < (1 + 1 / 2 ^ 53)\<^sup>2"
  shows "fl (sqrt x) = 1"
proof -
  define y where "y = sqrt x"
  have y1: "1 \<le> y" unfolding y_def using assms(1) by simp
  have y2: "y < 1 + 1 / 2 ^ 53"
    unfolding y_def using assms(2) by (intro real_less_lsqrt) simp_all
  have "fl y = of_int (rne (y / 2 powi (0 - 52))) * 2 powi (0 - 52)"
    using y1 y2 by (intro fl_eval) simp_all
  moreover have "rne (y / 2 powi (0 - 52)) = 2 ^ 52"
  proof (rule rne_floor_half)
    have e: "y / 2 powi (0 - 52) = y * 2 ^ 52"
      by (simp add: power_int_minus field_simps)
    show "real_of_int (2 ^ 52) \<le> y / 2 powi (0 - 52)"
      unfolding e using y1 by simp
    show "y / 2 powi (0 - 52) < real_of_int (2 ^ 52) + 1 / 2"
      unfolding e using y2 by (simp add: field_simps)
  qed
  ultimately show ?thesis
    by (simp add: y_def power_int_minus)
qed

lemma hypot_cr_far:
  "hypot_cr 140737488355328 (- 105553116266496) = 175921860444160"
  "hypot_cr (- 140737488355328) 105553116266496 = 175921860444160"
proof -
  have "sqrt 30948500982134506872478105600 = (175921860444160::real)"
    by (rule real_sqrt_unique) simp_all
  then show "hypot_cr 140737488355328 (- 105553116266496) = 175921860444160"
    "hypot_cr (- 140737488355328) 105553116266496 = 175921860444160"
    by (simp_all add: hypot_cr_def fl_line_2)
qed

lemma hypot_cr_unit:
  "hypot_cr (3602879701896397 / 4503599627370496) (- (5404319552844595 / 9007199254740992)) = 1"
  unfolding hypot_cr_def by (rule fl_sqrt_one) (simp_all add: power2_eq_square)

lemma sign_rule_far:
  "1 / 8 \<le> a \<Longrightarrow> sign_rule a b = (a, b)"
  "a \<le> - (1 / 8) \<Longrightarrow> sign_rule a b = (- a, - b)"
  using EPS_f64_bounds by (auto simp: sign_rule_def)

lemma tol_f64_upper: "fl (1 / 10 ^ 2) \<le> 101 / 10000"
proof -
  have "\<bar>fl (1 / 10 ^ 2) - 1 / 10 ^ 2\<bar> \<le> 1 / 10 ^ 4"
    by (rule fl_err_num [where c = "1 / 10 ^ 2"]) simp_all
  then have "fl (1 / 10 ^ 2) - 1 / 10 ^ 2 \<le> 1 / 10 ^ 4"
    by (rule abs_le_D1)
  then show ?thesis by simp
qed

lemma line_origin_far:
  "lineFromPoints_f64 hypot_cr origin far_point =
     \<lparr>l_a = 3602879701896397 / 4503599627370496,
      l_b = - (5404319552844595 / 9007199254740992), l_c = 0\<rparr>"
  by (simp add: lineFromPoints_f64_sign_rule Let_def origin_def far_point_def fl_minus
      fl_line_0 fl_line_1 hypot_cr_far fl_line_3 fl_line_4 sign_rule_far)

lemma line_far_origin:
  "lineFromPoints_f64 hypot_cr far_point origin =
     \<lparr>l_a = 3602879701896397 / 4503599627370496,
      l_b = - (5404319552844595 / 9007199254740992), l_c = 1 / 64\<rparr>"
  by (simp add: lineFromPoints_f64_sign_rule Let_def origin_def far_point_def fl_minus
      fl_line_0 fl_line_1 hypot_cr_far fl_line_3 fl_line_4 sign_rule_far
      fl_line_5 fl_line_6 fl_line_7)

text \<open>
  C9, as stated: for every pair of distinct points, \<open>lineFromPoints(p1, p2)\<close> and
  \<open>lineFromPoints(p2, p1)\<close> satisfy \<open>sameLine\<close>. For the origin and
  \<open>(3 \<cdot> 2\<^sup>4\<^sup>5, 2\<^sup>4\<^sup>7)\<close> the two lines have the same normal \<open>(0.8, -0.6)\<close> and the
  offsets \<open>0\<close> and \<open>0.015625\<close>, which differ by more than the tolerance \<open>0.01\<close>.
\<close>

theorem sameLine_f64_counterexample:
  "\<not> sameLine_f64 hypot_cr (lineFromPoints_f64 hypot_cr origin far_point)
       (lineFromPoints_f64 hypot_cr far_point origin)"
proof -
  have "sameLine_f64 hypot_cr (lineFromPoints_f64 hypot_cr origin far_point)
       (lineFromPoints_f64 hypot_cr far_point origin)
       = (\<bar>fl (fl (0 / 1) - fl ((1 / 64) / 1))\<bar> < fl (1 / 10 ^ 2))"
    by (subst sameLine_f64_common)
       (simp_all add: line_origin_far line_far_origin hypot_cr_unit)
  moreover have "fl (fl (0 / 1) - fl ((1 / 64) / 1)) = - (1 / 64)"
    by (simp add: fl_line_7 fl_minus)
  moreover have "\<not> (1 / 64 < fl (1 / 10 ^ 2))"
    using tol_f64_upper by simp
  ultimately show ?thesis by simp
qed

text \<open>
  C9, amended: for every pair of points with coordinates bounded by \<open>2\<^sup>3\<^sup>0\<close> in absolute
  value, and every \<^verbatim>\<open>Math.hypot\<close> that satisfies \<open>hypot_ok\<close>, \<open>lineFromPoints(p1, p2)\<close>
  and \<open>lineFromPoints(p2, p1)\<close> have the same \<open>a\<close> and \<open>b\<close> and satisfy \<open>sameLine\<close>:
  the direction of traversal changes the canonical form only by the rounding of \<open>c\<close>,
  below the tolerance.
\<close>

theorem sameLine_f64_symmetric:
  assumes "hypot_ok hyp"
    and "\<bar>pt_x p1\<bar> \<le> 2 ^ 30" and "\<bar>pt_y p1\<bar> \<le> 2 ^ 30"
    and "\<bar>pt_x p2\<bar> \<le> 2 ^ 30" and "\<bar>pt_y p2\<bar> \<le> 2 ^ 30"
  shows "l_a (lineFromPoints_f64 hyp p1 p2) = l_a (lineFromPoints_f64 hyp p2 p1)
         \<and> l_b (lineFromPoints_f64 hyp p1 p2) = l_b (lineFromPoints_f64 hyp p2 p1)
         \<and> sameLine_f64 hyp (lineFromPoints_f64 hyp p1 p2) (lineFromPoints_f64 hyp p2 p1)"
  using sameLine_f64_swap [OF assms] by (intro conjI)

theorem sameLine_f64_symmetric_witness:
  "hypot_ok hypot_cr
   \<and> \<bar>pt_x origin\<bar> \<le> 2 ^ 30 \<and> \<bar>pt_y origin\<bar> \<le> 2 ^ 30
   \<and> \<bar>pt_x \<lparr>pt_x = 3, pt_y = 4\<rparr>\<bar> \<le> 2 ^ 30 \<and> \<bar>pt_y \<lparr>pt_x = 3, pt_y = 4\<rparr>\<bar> \<le> 2 ^ 30
   \<and> sameLine_f64 hypot_cr (lineFromPoints_f64 hypot_cr origin \<lparr>pt_x = 3, pt_y = 4\<rparr>)
         (lineFromPoints_f64 hypot_cr \<lparr>pt_x = 3, pt_y = 4\<rparr> origin)"
proof -
  have a: "\<bar>pt_x origin\<bar> \<le> 2 ^ 30" and b: "\<bar>pt_y origin\<bar> \<le> 2 ^ 30"
    by (simp_all add: origin_def)
  have c: "\<bar>pt_x \<lparr>pt_x = 3, pt_y = 4\<rparr>\<bar> \<le> 2 ^ 30"
    and d: "\<bar>pt_y \<lparr>pt_x = 3, pt_y = 4\<rparr>\<bar> \<le> 2 ^ 30"
    by simp_all
  from sameLine_f64_symmetric [OF hypot_cr_ok a b c d] hypot_cr_ok a b c d
  show ?thesis by blast
qed

section \<open>The lattice test for equivalent systems\<close>

text \<open>
  The loops visit the lattice points \<open>(xmin + i/2, ymin + j/2)\<close> inside the domain, and
  the result is \<open>true\<close> exactly when the two systems agree at every one of them.
\<close>

lemma sysEq_y_iff:
  "sysEq_y cx cy ymx A B =
     (\<forall>j::nat. cy + real j / 2 \<le> ymx \<longrightarrow>
        list_all (insideHalfPlane \<lparr>pt_x = cx, pt_y = cy + real j / 2\<rparr>) A
        = list_all (insideHalfPlane \<lparr>pt_x = cx, pt_y = cy + real j / 2\<rparr>) B)"
proof (induction cx cy ymx A B rule: sysEq_y.induct)
  case (1 cx cy ymx A B)
  let ?ag = "\<lambda>y. list_all (insideHalfPlane \<lparr>pt_x = cx, pt_y = y\<rparr>) A
                = list_all (insideHalfPlane \<lparr>pt_x = cx, pt_y = y\<rparr>) B"
  let ?R = "\<lambda>c. \<forall>j::nat. c + real j / 2 \<le> ymx \<longrightarrow> ?ag (c + real j / 2)"
  show ?case
  proof (cases "cy \<le> ymx")
    case False
    have "\<not> cy + real j / 2 \<le> ymx" for j
      using False by (simp add: add_increasing2 not_le less_le_trans)
    then have "?R cy" by simp
    moreover have "sysEq_y cx cy ymx A B"
      using False by (subst sysEq_y.simps) simp
    ultimately show ?thesis by simp
  next
    case True
    show ?thesis
    proof (cases "?ag cy")
      case False
      have "\<not> sysEq_y cx cy ymx A B"
        using True False by (subst sysEq_y.simps) (simp add: Let_def)
      moreover have "\<not> ?R cy"
      proof
        assume "?R cy"
        from this [rule_format, of 0] True have "?ag cy" by simp
        with False show False by simp
      qed
      ultimately show ?thesis by simp
    next
      case ag: True
      have "sysEq_y cx cy ymx A B = sysEq_y cx (cy + 1 / 2) ymx A B"
        using True ag by (subst sysEq_y.simps) (simp add: Let_def)
      also have "\<dots> = ?R (cy + 1 / 2)"
        using "1.IH" [OF True refl refl refl] ag by simp
      also have "\<dots> = ?R cy"
      proof
        assume r: "?R (cy + 1 / 2)"
        show "?R cy"
        proof (intro allI impI)
          fix j :: nat
          assume le: "cy + real j / 2 \<le> ymx"
          show "?ag (cy + real j / 2)"
          proof (cases j)
            case 0
            with ag show ?thesis by simp
          next
            case (Suc m)
            then have e: "cy + real j / 2 = cy + 1 / 2 + real m / 2"
              by (simp add: field_simps)
            from r [rule_format, of m] le show ?thesis
              unfolding e by simp
          qed
        qed
      next
        assume r: "?R cy"
        show "?R (cy + 1 / 2)"
        proof (intro allI impI)
          fix j :: nat
          assume le: "cy + 1 / 2 + real j / 2 \<le> ymx"
          have e: "cy + 1 / 2 + real j / 2 = cy + real (Suc j) / 2"
            by (simp add: field_simps)
          from r [rule_format, of "Suc j"] le show "?ag (cy + 1 / 2 + real j / 2)"
            unfolding e by simp
        qed
      qed
      finally show ?thesis .
    qed
  qed
qed

lemma sysEq_x_iff:
  "sysEq_x cx dmn A B =
     (\<forall>i::nat. cx + real i / 2 \<le> xmax dmn \<longrightarrow>
        sysEq_y (cx + real i / 2) (ymin dmn) (ymax dmn) A B)"
proof (induction cx dmn A B rule: sysEq_x.induct)
  case (1 cx dmn A B)
  let ?col = "\<lambda>c. sysEq_y c (ymin dmn) (ymax dmn) A B"
  let ?R = "\<lambda>c. \<forall>i::nat. c + real i / 2 \<le> xmax dmn \<longrightarrow> ?col (c + real i / 2)"
  show ?case
  proof (cases "cx \<le> xmax dmn")
    case False
    have "\<not> cx + real i / 2 \<le> xmax dmn" for i
      using False by (simp add: add_increasing2 not_le less_le_trans)
    then have "?R cx" by simp
    moreover have "sysEq_x cx dmn A B"
      using False by (subst sysEq_x.simps) simp
    ultimately show ?thesis by simp
  next
    case True
    show ?thesis
    proof (cases "?col cx")
      case False
      have "\<not> sysEq_x cx dmn A B"
        using True False by (subst sysEq_x.simps) simp
      moreover have "\<not> ?R cx"
      proof
        assume "?R cx"
        from this [rule_format, of 0] True have "?col cx" by simp
        with False show False by simp
      qed
      ultimately show ?thesis by simp
    next
      case col: True
      have "sysEq_x cx dmn A B = sysEq_x (cx + 1 / 2) dmn A B"
        using True col by (subst sysEq_x.simps) simp
      also have "\<dots> = ?R (cx + 1 / 2)"
        using "1.IH" [OF True col] by simp
      also have "\<dots> = ?R cx"
      proof
        assume r: "?R (cx + 1 / 2)"
        show "?R cx"
        proof (intro allI impI)
          fix i :: nat
          assume le: "cx + real i / 2 \<le> xmax dmn"
          show "?col (cx + real i / 2)"
          proof (cases i)
            case 0
            with col show ?thesis by simp
          next
            case (Suc m)
            then have e: "cx + real i / 2 = cx + 1 / 2 + real m / 2"
              by (simp add: field_simps)
            from r [rule_format, of m] le show ?thesis
              unfolding e by simp
          qed
        qed
      next
        assume r: "?R cx"
        show "?R (cx + 1 / 2)"
        proof (intro allI impI)
          fix i :: nat
          assume le: "cx + 1 / 2 + real i / 2 \<le> xmax dmn"
          have e: "cx + 1 / 2 + real i / 2 = cx + real (Suc i) / 2"
            by (simp add: field_simps)
          from r [rule_format, of "Suc i"] le show "?col (cx + 1 / 2 + real i / 2)"
            unfolding e by simp
        qed
      qed
      finally show ?thesis .
    qed
  qed
qed

lemma systemsEquivalent_lattice:
  "systemsEquivalent dmn A B =
     (\<forall>i j::nat. xmin dmn + real i / 2 \<le> xmax dmn \<longrightarrow> ymin dmn + real j / 2 \<le> ymax dmn \<longrightarrow>
        list_all (insideHalfPlane \<lparr>pt_x = xmin dmn + real i / 2, pt_y = ymin dmn + real j / 2\<rparr>) A
        = list_all (insideHalfPlane \<lparr>pt_x = xmin dmn + real i / 2, pt_y = ymin dmn + real j / 2\<rparr>) B)"
  unfolding systemsEquivalent_def sysEq_x_iff sysEq_y_iff by blast

lemma sysEq_boundary_column:
  assumes "2 + 1 / 10 ^ 9 < c"
  shows "\<not> systemsEquivalent level1_dom [security] [security\<lparr>k_c := c\<rparr>]"
proof
  assume "systemsEquivalent level1_dom [security] [security\<lparr>k_c := c\<rparr>]"
  from this [unfolded systemsEquivalent_lattice, rule_format, of 4 0] assms
  show False
    by (simp add: level1_dom_def security_def insideHalfPlane_def)
qed

lemma sysEq_same_gap:
  assumes "2 + 1 / 10 ^ 9 < c1" and "c1 \<le> 5 / 2 + 1 / 10 ^ 9"
    and "2 + 1 / 10 ^ 9 < c2" and "c2 \<le> 5 / 2 + 1 / 10 ^ 9"
  shows "systemsEquivalent level1_dom [security\<lparr>k_c := c1\<rparr>] [security\<lparr>k_c := c2\<rparr>]"
  unfolding systemsEquivalent_lattice
proof (intro allI impI)
  fix i j :: nat
  have "(c1 - 1 / 10 ^ 9 \<le> real i / 2) = (c2 - 1 / 10 ^ 9 \<le> real i / 2)"
  proof (cases "i \<le> 4")
    case True
    then have "real i \<le> 4" by simp
    with assms show ?thesis by simp
  next
    case False
    then have "5 \<le> i" by simp
    then have "5 \<le> real i" by simp
    with assms show ?thesis by simp
  qed
  then show "list_all (insideHalfPlane \<lparr>pt_x = xmin level1_dom + real i / 2,
                 pt_y = ymin level1_dom + real j / 2\<rparr>) [security\<lparr>k_c := c1\<rparr>]
           = list_all (insideHalfPlane \<lparr>pt_x = xmin level1_dom + real i / 2,
                 pt_y = ymin level1_dom + real j / 2\<rparr>) [security\<lparr>k_c := c2\<rparr>]"
    by (simp add: level1_dom_def security_def insideHalfPlane_def)
qed

text \<open>
  C6, as stated: over the 0.5-step lattice on \<open>[0,12] \<times> [0,12]\<close> the systems
  \<open>[x \<ge> 2]\<close> and \<open>[x \<ge> 2.0001]\<close> are reported equivalent. They are not: the lattice
  column \<open>x = 2\<close> satisfies the first system and not the second.
\<close>

theorem systemsEquivalent_counterexample:
  "\<not> systemsEquivalent level1_dom [security] [security\<lparr>k_c := 20001 / 10000\<rparr>]"
  by (rule sysEq_boundary_column) simp

text \<open>
  C6, amended: over the 0.5-step lattice on \<open>[0,12] \<times> [0,12]\<close>, \<open>systemsEquivalent\<close>
  reports the one-constraint systems \<open>[x \<ge> c1]\<close> and \<open>[x \<ge> c2]\<close> as equivalent whenever
  both thresholds lie in the same gap between lattice columns,
  \<open>2 + 1e-9 < c1, c2 \<le> 2.5 + 1e-9\<close> (for instance \<open>2.0001\<close> and \<open>2.0002\<close>), because
  their difference is smaller than the lattice resolution; \<open>[x \<ge> 2]\<close> is reported not
  equivalent to any of them.
\<close>

theorem systemsEquivalent_blind_spot:
  assumes "2 + 1 / 10 ^ 9 < c1" and "c1 \<le> 5 / 2 + 1 / 10 ^ 9"
    and "2 + 1 / 10 ^ 9 < c2" and "c2 \<le> 5 / 2 + 1 / 10 ^ 9"
  shows "systemsEquivalent level1_dom [security\<lparr>k_c := c1\<rparr>] [security\<lparr>k_c := c2\<rparr>]
         \<and> \<not> systemsEquivalent level1_dom [security] [security\<lparr>k_c := c1\<rparr>]"
  using sysEq_same_gap [OF assms] sysEq_boundary_column [OF assms(1)] by (rule conjI)

theorem systemsEquivalent_blind_spot_witness:
  "2 + 1 / 10 ^ 9 < (20001 / 10000 :: real) \<and> (20001 / 10000 :: real) \<le> 5 / 2 + 1 / 10 ^ 9
   \<and> 2 + 1 / 10 ^ 9 < (20002 / 10000 :: real) \<and> (20002 / 10000 :: real) \<le> 5 / 2 + 1 / 10 ^ 9
   \<and> systemsEquivalent level1_dom [security\<lparr>k_c := 20001 / 10000\<rparr>]
        [security\<lparr>k_c := 20002 / 10000\<rparr>]
   \<and> \<not> systemsEquivalent level1_dom [security] [security\<lparr>k_c := 20001 / 10000\<rparr>]"
proof -
  have a: "2 + 1 / 10 ^ 9 < (20001 / 10000 :: real)" by simp
  have b: "(20001 / 10000 :: real) \<le> 5 / 2 + 1 / 10 ^ 9" by simp
  have c: "2 + 1 / 10 ^ 9 < (20002 / 10000 :: real)" by simp
  have d: "(20002 / 10000 :: real) \<le> 5 / 2 + 1 / 10 ^ 9" by simp
  from systemsEquivalent_blind_spot [OF a b c d] a b c d show ?thesis by blast
qed

end
